theory Spec2Isabelle
  imports Main "HOL-Library.Word"
begin

unbundle bit_operations_syntax

section \<open>Constants and the block header codec\<close>

text \<open>
  The two allocators of the repository, \<^verbatim>\<open>implicit.c\<close> and \<^verbatim>\<open>explicit.c\<close>, are embedded
  side by side. \<^verbatim>\<open>size_t\<close> and pointers are 64-bit words, so \<open>+\<close> and \<open>-\<close> wrap
  around as the machine's do. The helper functions \<^verbatim>\<open>roundup\<close>, \<^verbatim>\<open>get_header\<close>,
  \<^verbatim>\<open>get_size\<close> and \<^verbatim>\<open>is_malloc\<close> are textually the same in both files and are
  embedded once; a function that differs carries the suffix \<open>_i\<close> (implicit) or
  \<open>_e\<close> (explicit).
\<close>

type_synonym size_t = "64 word"
type_synonym ptr = "64 word"

definition HEADER_SIZE :: size_t where
  "HEADER_SIZE = 8"

definition MALLOC :: size_t where
  "MALLOC = 1"

definition SIZE_BITMASK :: size_t where
  "SIZE_BITMASK = NOT 7"

text \<open>
  Modelled from the spec: \<^verbatim>\<open>allocator.h\<close>, which defines \<^verbatim>\<open>ALIGNMENT\<close>, is not among the
  sources. The spec (3.1, 8) gives it as a power of two no smaller than the header, 8 in
  every scenario; the mask \<^verbatim>\<open>~7\<close> of the header codec fixes the same value.
  \<^verbatim>\<open>MAX_REQUEST_SIZE\<close>, the other constant of that header, has no value in the spec and
  is a parameter \<open>MX\<close> of the functions that use it.
\<close>

definition ALIGNMENT :: size_t where
  "ALIGNMENT = 8"

definition NULL :: ptr where
  "NULL = 0"

definition roundup :: "size_t \<Rightarrow> size_t \<Rightarrow> size_t" where
  "roundup sz multiple = (sz + multiple - 1) AND NOT (multiple - 1)"

definition get_header :: "ptr \<Rightarrow> ptr" where
  "get_header p = p - HEADER_SIZE"

text \<open>\<^verbatim>\<open>get_size\<close> and \<^verbatim>\<open>is_malloc\<close> applied to the header word already read.\<close>

definition get_size :: "size_t \<Rightarrow> size_t" where
  "get_size payload = payload AND SIZE_BITMASK"

definition is_malloc :: "size_t \<Rightarrow> bool" where
  "is_malloc payload = (payload AND MALLOC \<noteq> 0)"


section \<open>Memory\<close>

text \<open>
  The segment is a store of 64-bit words indexed by byte address. Every access the
  allocator makes is a whole \<^verbatim>\<open>size_t\<close> or pointer at a header address, or at the two
  link fields behind it, and all of these are congruent to the segment base modulo 8
  (\<^verbatim>\<open>get_size\<close> masks the low three bits and every requested size is rounded to a
  multiple of 8), so distinct accesses never overlap in part.
  \<^verbatim>\<open>memcpy\<close> is the only byte-granular access: it copies whole words and then the
  low-order bytes of one more word, the byte order of the x86-64 target.
\<close>

type_synonym memory = "ptr \<Rightarrow> size_t"

fun memcpy_words :: "memory \<Rightarrow> memory \<Rightarrow> ptr \<Rightarrow> ptr \<Rightarrow> nat \<Rightarrow> memory" where
  "memcpy_words src_m m dst src 0 = m"
| "memcpy_words src_m m dst src (Suc k) =
     memcpy_words src_m (m(dst := src_m src)) (dst + 8) (src + 8) k"

definition memcpy :: "memory \<Rightarrow> ptr \<Rightarrow> ptr \<Rightarrow> size_t \<Rightarrow> memory" where
  "memcpy m dst src n =
     (let k = unat n div 8;
          r = unat n mod 8;
          m1 = memcpy_words m m dst src k;
          d = dst + of_nat (8 * k);
          sp = src + of_nat (8 * k)
      in if r = 0 then m1
         else m1(d := (m1 d AND NOT (mask (8 * r))) OR (m sp AND mask (8 * r))))"

text \<open>Addresses of the \<^verbatim>\<open>prev\<close> and \<^verbatim>\<open>next\<close> fields of \<^verbatim>\<open>struct header\<close> (explicit.c).\<close>

definition prev_field :: "ptr \<Rightarrow> ptr" where
  "prev_field p = p + 8"

definition next_field :: "ptr \<Rightarrow> ptr" where
  "next_field p = p + 16"

section \<open>The implicit allocator (implicit.c)\<close>

text \<open>
  The file's static variables and the segment they describe. The block counters are C
  \<^verbatim>\<open>int\<close>s, whose overflow is undefined and out of reach of a segment of any real size;
  they are unbounded integers here.
\<close>

record heap_i =
  mem :: memory
  segment_start :: ptr
  segment_end :: ptr
  segment_size :: size_t
  nused :: size_t
  num_freeblocks :: int
  num_usedblocks :: int

definition myinit_i :: "ptr \<Rightarrow> size_t \<Rightarrow> heap_i \<Rightarrow> bool \<times> heap_i" where
  "myinit_i heap_start heap_size s =
     (if heap_size < HEADER_SIZE + ALIGNMENT then (False, s)
      else (True, s\<lparr>segment_start := heap_start,
                     segment_end := heap_start + heap_size,
                     segment_size := heap_size,
                     nused := 0,
                     num_usedblocks := 0,
                     num_freeblocks := 1,
                     mem := (mem s)(heap_start := heap_size - HEADER_SIZE)\<rparr>))"

definition split_block_i :: "ptr \<Rightarrow> size_t \<Rightarrow> heap_i \<Rightarrow> heap_i" where
  "split_block_i old_block size_needed s =
     (let old_size = get_size (mem s old_block) in
      if old_size - size_needed \<ge> HEADER_SIZE + ALIGNMENT then
        let total = size_needed + HEADER_SIZE;
            new_block = old_block + total;
            m1 = (mem s)(new_block := old_size - total);
            m2 = m1(old_block := size_needed)
        in s\<lparr>mem := m2, num_freeblocks := num_freeblocks s + 1\<rparr>
      else s)"

text \<open>
  The \<^verbatim>\<open>while\<close> loop of \<^verbatim>\<open>find_first_free\<close>. Nothing in the code bounds it (a header
  whose size field is \<open>2\<^sup>6\<^sup>4 - 8\<close> sends the walk back to the same block), so it is a
  partial function: \<open>None\<close> is a walk that never ends, \<open>Some NULL\<close> the failure the code
  reports.
\<close>

partial_function (option) find_first_free :: "heap_i \<Rightarrow> ptr \<Rightarrow> size_t \<Rightarrow> ptr option" where
  "find_first_free s p size_needed =
     (if p < segment_end s then
        (if get_size (mem s p) \<ge> size_needed \<and> \<not> is_malloc (mem s p) then Some p
         else find_first_free s (p + get_size (mem s p) + HEADER_SIZE) size_needed)
      else Some NULL)"

declare find_first_free.simps [code]

definition mymalloc_i :: "size_t \<Rightarrow> heap_i \<Rightarrow> size_t \<Rightarrow> (ptr \<times> heap_i) option" where
  "mymalloc_i MX s requested_size =
     (if requested_size > MX \<or> requested_size = 0 then Some (NULL, s)
      else
        let size_needed = roundup requested_size ALIGNMENT in
        if size_needed + nused s > segment_size s then Some (NULL, s)
        else
          (case find_first_free s (segment_start s) size_needed of
             None \<Rightarrow> None
           | Some p \<Rightarrow>
               if p = NULL then Some (NULL, s)
               else
                 let s1 = split_block_i p size_needed s;
                     s2 = s1\<lparr>mem := (mem s1)(p := mem s1 p + MALLOC)\<rparr>;
                     s3 = s2\<lparr>nused := nused s2 + (get_size (mem s2 p) + HEADER_SIZE)\<rparr>;
                     s4 = s3\<lparr>num_usedblocks := num_usedblocks s3 + 1\<rparr>;
                     s5 = s4\<lparr>num_freeblocks := num_freeblocks s4 - 1\<rparr>
                 in Some (p + HEADER_SIZE, s5)))"

definition myfree_i :: "heap_i \<Rightarrow> ptr \<Rightarrow> heap_i" where
  "myfree_i s p =
     (if p = NULL then s
      else
        let header_ptr = get_header p;
            s1 = s\<lparr>mem := (mem s)(header_ptr := mem s header_ptr - MALLOC)\<rparr>;
            s2 = s1\<lparr>num_usedblocks := num_usedblocks s1 - 1\<rparr>;
            s3 = s2\<lparr>num_freeblocks := num_freeblocks s2 + 1\<rparr>
        in s3\<lparr>nused := nused s3 - (get_size (mem s3 header_ptr) + HEADER_SIZE)\<rparr>)"

definition myrealloc_i :: "size_t \<Rightarrow> heap_i \<Rightarrow> ptr \<Rightarrow> size_t \<Rightarrow> (ptr \<times> heap_i) option" where
  "myrealloc_i MX s old_ptr new_size =
     (if old_ptr = NULL then mymalloc_i MX s new_size
      else if new_size = 0 then Some (NULL, myfree_i s old_ptr)
      else
        (case mymalloc_i MX s new_size of
           None \<Rightarrow> None
         | Some (new_ptr, s1) \<Rightarrow>
             if new_ptr = NULL then Some (NULL, s1)
             else
               let old_size = get_size (mem s1 (get_header old_ptr));
                   old_size' = (if new_size < old_size then new_size else old_size);
                   s2 = s1\<lparr>mem := memcpy (mem s1) new_ptr old_ptr old_size'\<rparr>
               in Some (new_ptr, myfree_i s2 old_ptr)))"

text \<open>
  The block walk of \<^verbatim>\<open>validate_heap\<close>: \<open>Some None\<close> is one of its two early
  \<^verbatim>\<open>return false\<close>, \<open>Some (Some (free_blocks, used_blocks))\<close> the counts at loop exit.
\<close>

partial_function (option) count_blocks_i ::
    "heap_i \<Rightarrow> ptr \<Rightarrow> int \<Rightarrow> int \<Rightarrow> (int \<times> int) option option" where
  "count_blocks_i s block free_blocks used_blocks =
     (if block < segment_end s then
        (if nused s > segment_size s then Some None
         else if get_size (mem s block) < ALIGNMENT then Some None
         else if is_malloc (mem s block) then
           count_blocks_i s (block + (get_size (mem s block) + HEADER_SIZE))
             free_blocks (used_blocks + 1)
         else
           count_blocks_i s (block + (get_size (mem s block) + HEADER_SIZE))
             (free_blocks + 1) used_blocks)
      else Some (Some (free_blocks, used_blocks)))"

declare count_blocks_i.simps [code]

definition validate_heap_i :: "heap_i \<Rightarrow> bool option" where
  "validate_heap_i s =
     (case count_blocks_i s (segment_start s) 0 0 of
        None \<Rightarrow> None
      | Some None \<Rightarrow> Some False
      | Some (Some (free_blocks, used_blocks)) \<Rightarrow>
          if used_blocks \<noteq> num_usedblocks s then Some False
          else if free_blocks \<noteq> num_freeblocks s then Some False
          else Some True)"

section \<open>The explicit allocator (explicit.c)\<close>

record heap_e = heap_i +
  first_free :: ptr

definition myinit_e :: "ptr \<Rightarrow> size_t \<Rightarrow> heap_e \<Rightarrow> bool \<times> heap_e" where
  "myinit_e heap_start heap_size s =
     (if heap_size < HEADER_SIZE + ALIGNMENT * 2 then (False, s)
      else
        let m1 = (mem s)(heap_start := heap_size - HEADER_SIZE);
            m2 = m1(prev_field heap_start := NULL);
            m3 = m2(next_field heap_start := NULL)
        in (True, s\<lparr>segment_start := heap_start,
                      segment_end := heap_start + heap_size,
                      segment_size := heap_size,
                      nused := 0,
                      num_usedblocks := 0,
                      num_freeblocks := 1,
                      first_free := heap_start,
                      mem := m3\<rparr>))"

definition add_freeblock :: "ptr \<Rightarrow> heap_e \<Rightarrow> heap_e" where
  "add_freeblock block s =
     (if first_free s = NULL then s\<lparr>first_free := block\<rparr>
      else
        let m1 = (mem s)(prev_field (first_free s) := block);
            m2 = m1(prev_field block := NULL);
            m3 = m2(next_field block := first_free s)
        in s\<lparr>mem := m3, first_free := block\<rparr>)"

definition remove_freeblock :: "ptr \<Rightarrow> heap_e \<Rightarrow> heap_e" where
  "remove_freeblock block s =
     (let s1 = (if block = first_free s
                then s\<lparr>first_free := mem s (next_field block)\<rparr> else s);
          s2 = (if mem s1 (prev_field block) \<noteq> NULL
                then s1\<lparr>mem := (mem s1)(next_field (mem s1 (prev_field block)) :=
                                         mem s1 (next_field block))\<rparr>
                else s1)
      in if mem s2 (next_field block) \<noteq> NULL
         then s2\<lparr>mem := (mem s2)(prev_field (mem s2 (next_field block)) :=
                                  mem s2 (prev_field block))\<rparr>
         else s2)"

definition split_block_e :: "ptr \<Rightarrow> size_t \<Rightarrow> heap_e \<Rightarrow> heap_e" where
  "split_block_e old_block size_needed s =
     (let old_size = get_size (mem s old_block) in
      if old_size - size_needed \<ge> 2 * ALIGNMENT + HEADER_SIZE then
        let total = size_needed + HEADER_SIZE;
            new_block = old_block + total;
            m1 = (mem s)(new_block := old_size - total);
            m2 = (if is_malloc (m1 old_block)
                  then m1(old_block := size_needed + MALLOC)
                  else m1(old_block := size_needed));
            s1 = add_freeblock new_block (s\<lparr>mem := m2\<rparr>)
        in s1\<lparr>num_freeblocks := num_freeblocks s1 + 1\<rparr>
      else s)"

definition coalesce_block :: "ptr \<Rightarrow> heap_e \<Rightarrow> heap_e" where
  "coalesce_block block s =
     (if mem s (prev_field block) = NULL \<and> mem s (next_field block) = NULL then s
      else
        let nxt = block + get_size (mem s block) + HEADER_SIZE in
        if nxt \<ge> segment_end s then s
        else if \<not> is_malloc (mem s nxt) then
          let s1 = remove_freeblock nxt s;
              s2 = s1\<lparr>mem := (mem s1)(block :=
                      mem s1 block + (get_size (mem s1 nxt) + HEADER_SIZE))\<rparr>
          in s2\<lparr>num_freeblocks := num_freeblocks s2 - 1\<rparr>
        else s)"

text \<open>
  The list walk of \<^verbatim>\<open>find_freeblock\<close> follows \<^verbatim>\<open>next\<close> until \<^verbatim>\<open>NULL\<close>; on a cyclic
  list it does not end (\<open>None\<close>).
\<close>

partial_function (option) find_freeblock :: "heap_e \<Rightarrow> ptr \<Rightarrow> size_t \<Rightarrow> ptr option" where
  "find_freeblock s p size_needed =
     (if p \<noteq> NULL then
        (if get_size (mem s p) \<ge> size_needed then Some p
         else find_freeblock s (mem s (next_field p)) size_needed)
      else Some NULL)"

declare find_freeblock.simps [code]

definition mymalloc_e :: "size_t \<Rightarrow> heap_e \<Rightarrow> size_t \<Rightarrow> (ptr \<times> heap_e) option" where
  "mymalloc_e MX s requested_size =
     (if requested_size > MX \<or> requested_size = 0 then Some (NULL, s)
      else
        let size_needed = (if requested_size > 2 * ALIGNMENT
                           then roundup requested_size ALIGNMENT else 2 * ALIGNMENT) in
        if size_needed + nused s > segment_size s then Some (NULL, s)
        else
          (case find_freeblock s (first_free s) size_needed of
             None \<Rightarrow> None
           | Some p \<Rightarrow>
               if p = NULL then Some (NULL, s)
               else
                 let s1 = split_block_e p size_needed s;
                     s2 = remove_freeblock p s1;
                     s3 = s2\<lparr>mem := (mem s2)(p := mem s2 p + MALLOC)\<rparr>;
                     s4 = s3\<lparr>nused := nused s3 + (get_size (mem s3 p) + HEADER_SIZE)\<rparr>;
                     s5 = s4\<lparr>num_usedblocks := num_usedblocks s4 + 1\<rparr>;
                     s6 = s5\<lparr>num_freeblocks := num_freeblocks s5 - 1\<rparr>
                 in Some (p + HEADER_SIZE, s6)))"

definition myfree_e :: "heap_e \<Rightarrow> ptr \<Rightarrow> heap_e" where
  "myfree_e s p =
     (if p = NULL then s
      else
        let header_ptr = get_header p;
            s1 = s\<lparr>mem := (mem s)(header_ptr := mem s header_ptr - MALLOC)\<rparr>;
            s2 = s1\<lparr>nused := nused s1 - (get_size (mem s1 header_ptr) + HEADER_SIZE)\<rparr>;
            s3 = s2\<lparr>num_usedblocks := num_usedblocks s2 - 1\<rparr>;
            s4 = s3\<lparr>num_freeblocks := num_freeblocks s3 + 1\<rparr>;
            s5 = add_freeblock header_ptr s4
        in coalesce_block header_ptr s5)"

text \<open>
  The \<^verbatim>\<open>while (true)\<close> loop of \<^verbatim>\<open>myrealloc\<close>: coalesce, and stop once the size read
  from the header equals \<^verbatim>\<open>temp_size\<close>. The result is the final \<^verbatim>\<open>temp_size\<close> and state.
\<close>

partial_function (option) coalesce_loop ::
    "heap_e \<Rightarrow> ptr \<Rightarrow> size_t \<Rightarrow> (size_t \<times> heap_e) option" where
  "coalesce_loop s oldheader_ptr temp_size =
     (if get_size (mem (coalesce_block oldheader_ptr s) oldheader_ptr) \<noteq> temp_size
      then coalesce_loop (coalesce_block oldheader_ptr s) oldheader_ptr
             (get_size (mem (coalesce_block oldheader_ptr s) oldheader_ptr))
      else Some (temp_size, coalesce_block oldheader_ptr s))"

declare coalesce_loop.simps [code]

definition myrealloc_e :: "size_t \<Rightarrow> heap_e \<Rightarrow> ptr \<Rightarrow> size_t \<Rightarrow> (ptr \<times> heap_e) option" where
  "myrealloc_e MX s old_ptr new_size =
     (if old_ptr = NULL then mymalloc_e MX s new_size
      else if new_size = 0 then Some (NULL, myfree_e s old_ptr)
      else
        let oldheader_ptr = get_header old_ptr;
            old_size = get_size (mem s oldheader_ptr);
            newsize_needed = (if new_size > 2 * ALIGNMENT
                              then roundup new_size ALIGNMENT else 2 * ALIGNMENT) in
        if old_size > newsize_needed then
          let s1 = split_block_e oldheader_ptr newsize_needed s
          in Some (old_ptr,
                   s1\<lparr>nused := nused s1 - (old_size - get_size (mem s1 oldheader_ptr))\<rparr>)
        else if old_size = newsize_needed then Some (old_ptr, s)
        else
          (case coalesce_loop s oldheader_ptr old_size of
             None \<Rightarrow> None
           | Some (temp_size, s1) \<Rightarrow>
               if temp_size \<ge> newsize_needed then
                 let s2 = split_block_e oldheader_ptr newsize_needed s1
                 in Some (old_ptr,
                          s2\<lparr>nused := nused s2 + (get_size (mem s2 oldheader_ptr) - old_size)\<rparr>)
               else
                 (case mymalloc_e MX s1 new_size of
                    None \<Rightarrow> None
                  | Some (new_ptr, s2) \<Rightarrow>
                      if new_ptr = NULL then Some (NULL, s2)
                      else
                        let s3 = s2\<lparr>mem := memcpy (mem s2) new_ptr old_ptr old_size\<rparr>
                        in Some (new_ptr, myfree_e s3 old_ptr))))"

partial_function (option) count_blocks_e ::
    "heap_e \<Rightarrow> ptr \<Rightarrow> int \<Rightarrow> int \<Rightarrow> (int \<times> int) option option" where
  "count_blocks_e s block free_blocks used_blocks =
     (if block < segment_end s then
        (if nused s > segment_size s then Some None
         else if get_size (mem s block) < 2 * ALIGNMENT then Some None
         else if is_malloc (mem s block) then
           count_blocks_e s (block + (get_size (mem s block) + HEADER_SIZE))
             free_blocks (used_blocks + 1)
         else
           count_blocks_e s (block + (get_size (mem s block) + HEADER_SIZE))
             (free_blocks + 1) used_blocks)
      else Some (Some (free_blocks, used_blocks)))"

declare count_blocks_e.simps [code]

text \<open>
  The free-list walk of \<^verbatim>\<open>validate_heap\<close>: \<open>Some None\<close> when a node with the allocated
  bit makes it return false, \<open>Some (Some n)\<close> the number of nodes met before \<^verbatim>\<open>NULL\<close>.
\<close>

partial_function (option) count_freelist ::
    "heap_e \<Rightarrow> ptr \<Rightarrow> int \<Rightarrow> int option option" where
  "count_freelist s temp free_blocks =
     (if temp \<noteq> NULL then
        (if is_malloc (mem s temp) then Some None
         else count_freelist s (mem s (next_field temp)) (free_blocks + 1))
      else Some (Some free_blocks))"

declare count_freelist.simps [code]

definition validate_heap_e :: "heap_e \<Rightarrow> bool option" where
  "validate_heap_e s =
     (case count_blocks_e s (segment_start s) 0 0 of
        None \<Rightarrow> None
      | Some None \<Rightarrow> Some False
      | Some (Some (free_blocks, used_blocks)) \<Rightarrow>
          if used_blocks \<noteq> num_usedblocks s then Some False
          else if free_blocks \<noteq> num_freeblocks s then Some False
          else
            (case count_freelist s (first_free s) 0 of
               None \<Rightarrow> None
             | Some None \<Rightarrow> Some False
             | Some (Some n) \<Rightarrow>
                 if n \<noteq> num_freeblocks s then Some False else Some True))"

section \<open>Block sequences, free-list sequences and call scripts\<close>

text \<open>
  \<open>blocks_from s p bs\<close>: walking the segment from \<open>p\<close> as \<^verbatim>\<open>find_first_free\<close>,
  \<^verbatim>\<open>validate_heap\<close> and \<^verbatim>\<open>dump_heap\<close> do (next header = header + size + \<^verbatim>\<open>HEADER_SIZE\<close>,
  until the address is no longer below \<^verbatim>\<open>segment_end\<close>) meets exactly the headers \<open>bs\<close>,
  in this order. It reads only the fields both allocators share.
\<close>

fun blocks_from :: "'a heap_i_scheme \<Rightarrow> ptr \<Rightarrow> ptr list \<Rightarrow> bool" where
  "blocks_from s p [] = (\<not> p < segment_end s)"
| "blocks_from s p (b # bs) =
     (p < segment_end s \<and> b = p \<and> blocks_from s (p + get_size (mem s p) + HEADER_SIZE) bs)"

text \<open>
  \<open>nodes_from s p ns\<close>: following \<^verbatim>\<open>next\<close> from \<open>p\<close> until \<^verbatim>\<open>NULL\<close>, as
  \<^verbatim>\<open>find_freeblock\<close> and \<^verbatim>\<open>validate_heap\<close> do, meets exactly the nodes \<open>ns\<close>.
\<close>

fun nodes_from :: "heap_e \<Rightarrow> ptr \<Rightarrow> ptr list \<Rightarrow> bool" where
  "nodes_from s p [] = (p = NULL)"
| "nodes_from s p (b # bs) =
     (p \<noteq> NULL \<and> b = p \<and> nodes_from s (mem s (next_field p)) bs)"

text \<open>The test of \<^verbatim>\<open>find_first_free\<close> on one block: large enough and not allocated.\<close>

definition fits_i :: "heap_i \<Rightarrow> size_t \<Rightarrow> ptr \<Rightarrow> bool" where
  "fits_i s n b = (get_size (mem s b) \<ge> n \<and> \<not> is_malloc (mem s b))"

text \<open>The test of \<^verbatim>\<open>find_freeblock\<close> on one list node: large enough.\<close>

definition fits_e :: "heap_e \<Rightarrow> size_t \<Rightarrow> ptr \<Rightarrow> bool" where
  "fits_e s n b = (get_size (mem s b) \<ge> n)"

text \<open>
  A state before any call: zero-filled memory, all static variables zero (as C
  initialises them).
\<close>

definition zero_heap_i :: heap_i where
  "zero_heap_i = \<lparr>mem = (\<lambda>_. 0), segment_start = 0, segment_end = 0, segment_size = 0,
     nused = 0, num_freeblocks = 0, num_usedblocks = 0\<rparr>"

definition zero_heap_e :: heap_e where
  "zero_heap_e = \<lparr>mem = (\<lambda>_. 0), segment_start = 0, segment_end = 0, segment_size = 0,
     nused = 0, num_freeblocks = 0, num_usedblocks = 0, first_free = 0\<rparr>"

text \<open>
  A script of public calls. Every pointer a call returns is appended to a list;
  \<open>Free i\<close> and \<open>Realloc i n\<close> pass the \<open>i\<close>-th pointer returned so far. A script that
  names a pointer not yet returned, or whose \<^verbatim>\<open>myinit\<close> fails, has no run.
\<close>

datatype call = Init ptr size_t | Malloc size_t | Free nat | Realloc nat size_t

fun call_i :: "size_t \<Rightarrow> call \<Rightarrow> heap_i \<times> ptr list \<Rightarrow> (heap_i \<times> ptr list) option" where
  "call_i MX (Init base sz) (s, ps) =
     (case myinit_i base sz s of (ok, s') \<Rightarrow> if ok then Some (s', []) else None)"
| "call_i MX (Malloc n) (s, ps) =
     (case mymalloc_i MX s n of None \<Rightarrow> None | Some (p, s') \<Rightarrow> Some (s', ps @ [p]))"
| "call_i MX (Free i) (s, ps) =
     (if i < length ps then Some (myfree_i s (ps ! i), ps) else None)"
| "call_i MX (Realloc i n) (s, ps) =
     (if i < length ps then
        (case myrealloc_i MX s (ps ! i) n of
           None \<Rightarrow> None
         | Some (p, s') \<Rightarrow> Some (s', ps @ [p]))
      else None)"

fun run_i :: "size_t \<Rightarrow> call list \<Rightarrow> heap_i \<times> ptr list \<Rightarrow> (heap_i \<times> ptr list) option" where
  "run_i MX [] st = Some st"
| "run_i MX (c # cs) st =
     (case call_i MX c st of None \<Rightarrow> None | Some st' \<Rightarrow> run_i MX cs st')"

fun call_e :: "size_t \<Rightarrow> call \<Rightarrow> heap_e \<times> ptr list \<Rightarrow> (heap_e \<times> ptr list) option" where
  "call_e MX (Init base sz) (s, ps) =
     (case myinit_e base sz s of (ok, s') \<Rightarrow> if ok then Some (s', []) else None)"
| "call_e MX (Malloc n) (s, ps) =
     (case mymalloc_e MX s n of None \<Rightarrow> None | Some (p, s') \<Rightarrow> Some (s', ps @ [p]))"
| "call_e MX (Free i) (s, ps) =
     (if i < length ps then Some (myfree_e s (ps ! i), ps) else None)"
| "call_e MX (Realloc i n) (s, ps) =
     (if i < length ps then
        (case myrealloc_e MX s (ps ! i) n of
           None \<Rightarrow> None
         | Some (p, s') \<Rightarrow> Some (s', ps @ [p]))
      else None)"

fun run_e :: "size_t \<Rightarrow> call list \<Rightarrow> heap_e \<times> ptr list \<Rightarrow> (heap_e \<times> ptr list) option" where
  "run_e MX [] st = Some st"
| "run_e MX (c # cs) st =
     (case call_e MX c st of None \<Rightarrow> None | Some st' \<Rightarrow> run_e MX cs st')"

text \<open>
  The normalized request size, the local \<^verbatim>\<open>size_needed\<close> of \<^verbatim>\<open>mymalloc\<close>
  (\<^verbatim>\<open>newsize_needed\<close> in \<^verbatim>\<open>myrealloc\<close>), as each file computes it.
\<close>

definition size_needed_i :: "size_t \<Rightarrow> size_t" where
  "size_needed_i requested_size = roundup requested_size ALIGNMENT"

definition size_needed_e :: "size_t \<Rightarrow> size_t" where
  "size_needed_e requested_size =
     (if requested_size > 2 * ALIGNMENT then roundup requested_size ALIGNMENT
      else 2 * ALIGNMENT)"

text \<open>
  Two small concrete heaps, the states after \<^verbatim>\<open>myinit(4096, 64)\<close> and
  \<^verbatim>\<open>mymalloc(16)\<close>: an allocated block of payload 16 at 4096 and a free block of
  payload 32 at 4120.
\<close>

definition demo_i :: heap_i where
  "demo_i = \<lparr>mem = (\<lambda>_. 0)(4096 := 17, 4120 := 32), segment_start = 4096,
     segment_end = 4160, segment_size = 64, nused = 24, num_freeblocks = 1,
     num_usedblocks = 1\<rparr>"

definition demo_e :: heap_e where
  "demo_e = \<lparr>mem = (\<lambda>_. 0)(4096 := 17, 4104 := 4120, 4120 := 32), segment_start = 4096,
     segment_end = 4160, segment_size = 64, nused = 24, num_freeblocks = 1,
     num_usedblocks = 1, first_free = 4120\<rparr>"

text \<open>
  The explicit heap after \<^verbatim>\<open>myinit(4096, 1024)\<close> and \<^verbatim>\<open>mymalloc(100)\<close>: an allocated
  block of payload 104 at 4096, whose first payload word still holds the stale
  \<^verbatim>\<open>prev\<close> link, and a free block of payload 904 at 4208.
\<close>

definition demo_shrink_e :: heap_e where
  "demo_shrink_e = \<lparr>mem = (\<lambda>_. 0)(4096 := 105, 4104 := 4208, 4208 := 904),
     segment_start = 4096, segment_end = 5120, segment_size = 1024, nused = 112,
     num_freeblocks = 1, num_usedblocks = 1, first_free = 4208\<rparr>"

section \<open>Rounding\<close>

lemma split_mask:
  fixes x :: size_t
  shows "(x AND mask k) + (x AND NOT (mask k)) = x"
  by (metis (no_types, lifting) and.assoc and.idem and_eq_not_not_or
    bit.conj_disj_distrib disjunctive_add_eq_or word_and_not
    word_ao_absorbs(6))

lemma unat_and_mask:
  fixes x :: size_t
  shows "unat (x AND mask k) = unat x mod 2 ^ k"
  by (metis take_bit_eq_mask take_bit_eq_mod unsigned_take_bit_eq)

lemma and_not_mask_unat:
  fixes x :: size_t
  shows "unat (x AND NOT (mask k)) = (unat x div 2 ^ k) * 2 ^ k"
proof -
  have le: "x AND mask k \<le> x"
    by (rule word_and_le2)
  have "x AND NOT (mask k) = x - (x AND mask k)"
    using split_mask [of x k] by (simp add: algebra_simps)
  then have "unat (x AND NOT (mask k)) = unat x - unat (x AND mask k)"
    using unat_sub [OF le] by simp
  also have "\<dots> = unat x - unat x mod 2 ^ k"
    by (simp add: unat_and_mask)
  also have "\<dots> = (unat x div 2 ^ k) * 2 ^ k"
    by (simp add: minus_mod_eq_div_mult)
  finally show ?thesis .
qed

lemma ceil_multiple_ge:
  fixes s m :: nat
  assumes "0 < m"
  shows "s \<le> ((s + m - 1) div m) * m"
proof -
  have "s + m - 1 = ((s + m - 1) div m) * m + (s + m - 1) mod m"
    by simp
  moreover have "(s + m - 1) mod m \<le> m - 1"
    using assms by (simp add: Suc_leI le_diff_conv2 mod_less_divisor)
  ultimately show ?thesis
    using assms by linarith
qed

lemma ceil_multiple_least:
  fixes s m j :: nat
  assumes "0 < m" "m dvd j" "s \<le> j"
  shows "((s + m - 1) div m) * m \<le> j"
proof -
  from assms(2) obtain c where c: "j = m * c" ..
  have "(s + m - 1) div m \<le> (m * c + (m - 1)) div m"
    using assms(3) c by (intro div_le_mono) simp
  also have "\<dots> = c"
    using assms(1) by (metis add_cancel_right_right diff_less div_less div_mult_self4
    not_gr_zero zero_less_one)
  finally show ?thesis
    using c by (simp add: mult.commute)
qed

lemma unat_2p_64:
  assumes "k < 64"
  shows "unat (2 ^ k :: size_t) = 2 ^ k"
proof -
  have "(2 ^ k :: size_t) = of_nat (2 ^ k)"
    by simp
  then have "unat (2 ^ k :: size_t) = 2 ^ k mod 2 ^ 64"
    by (simp only: unat_of_nat) simp
  moreover have "(2 :: nat) ^ k < 2 ^ 64"
    using assms by (intro power_strict_increasing) auto
  ultimately show ?thesis
    by simp
qed

lemma unat_mask_64:
  assumes "k < 64"
  shows "unat (mask k :: size_t) = 2 ^ k - 1"
proof -
  have "(1 :: size_t) \<le> 2 ^ k"
    by (simp add: word_le_nat_alt unat_2p_64 [OF assms])
  then have "unat ((2 ^ k :: size_t) - 1) = unat (2 ^ k :: size_t) - unat (1 :: size_t)"
    by (rule unat_sub)
  then show ?thesis
    by (simp add: mask_eq_decr_exp unat_2p_64 [OF assms])
qed

lemma roundup_unat:
  fixes s :: size_t
  assumes "k < 64" "unat s + 2 ^ k - 1 < 2 ^ 64"
  shows "unat (roundup s (2 ^ k)) = ((unat s + 2 ^ k - 1) div 2 ^ k) * 2 ^ k"
proof -
  have m: "(2 ^ k :: size_t) - 1 = mask k"
    by (simp add: mask_eq_decr_exp)
  have "unat (s + mask k) = unat s + unat (mask k :: size_t)"
    using assms by (intro unat_add_lem [THEN iffD1]) (simp add: unat_mask_64)
  then have "unat (s + 2 ^ k - 1) = unat s + 2 ^ k - 1"
    using assms(1) m by (metis Nat.add_diff_assoc One_nat_def add_diff_eq le_add2
    nat_one_le_power one_add_one unat_mask_64)
  then show ?thesis
    by (simp add: roundup_def m and_not_mask_unat)
qed

text \<open>
  C10: for a power of two \<open>m\<close> and a size \<open>s\<close> with \<open>s + m - 1\<close> below \<open>2\<^sup>6\<^sup>4\<close>,
  \<^verbatim>\<open>roundup(s, m)\<close> is a multiple of \<open>m\<close>, is at least \<open>s\<close>, and is no larger than any
  other multiple of \<open>m\<close> that is at least \<open>s\<close>.
\<close>

theorem roundup_least_multiple:
  fixes s m :: size_t
  assumes "m = 2 ^ k" "k < 64" "unat s + unat m - 1 < 2 ^ 64"
  shows "unat m dvd unat (roundup s m) \<and> unat s \<le> unat (roundup s m) \<and>
    (\<forall>j. unat m dvd j \<and> unat s \<le> j \<longrightarrow> unat (roundup s m) \<le> j)"
proof -
  have um: "unat m = 2 ^ k"
    using assms(1,2) by (simp add: unat_2p_64)
  have r: "unat (roundup s m) = ((unat s + 2 ^ k - 1) div 2 ^ k) * 2 ^ k"
    using roundup_unat [of k s] assms um by simp
  show ?thesis
    unfolding r um
    using ceil_multiple_ge [of "2 ^ k" "unat s"] ceil_multiple_least [of "2 ^ k" _ "unat s"]
    by auto
qed

theorem roundup_least_multiple_witness:
  "(8 :: size_t) = 2 ^ 3 \<and> unat (13 :: size_t) + unat (8 :: size_t) - 1 < 2 ^ 64 \<and>
   unat (8 :: size_t) dvd unat (roundup 13 8) \<and>
   unat (13 :: size_t) \<le> unat (roundup 13 8) \<and>
   unat (roundup 13 8) \<le> 16"
proof -
  have h: "(8 :: size_t) = 2 ^ 3" "(3 :: nat) < 64"
      "unat (13 :: size_t) + unat (8 :: size_t) - 1 < 2 ^ 64"
    by simp_all
  have "unat (8 :: size_t) dvd (16 :: nat) \<and> unat (13 :: size_t) \<le> (16 :: nat)"
    by simp
  then show ?thesis
    using h roundup_least_multiple [OF h] by blast
qed

section \<open>Initialisation\<close>

lemma aligned_header_word:
  fixes w :: size_t
  assumes "8 dvd unat w"
  shows "get_size w = w" "\<not> is_malloc w"
proof -
  have "unat (w AND mask 3) = 0"
    using assms by (simp add: unat_and_mask mod_eq_0_iff_dvd)
  then have z: "w AND mask 3 = 0"
    by (simp add: unat_eq_0)
  have "(w AND mask 3) + (w AND NOT (mask 3)) = w"
    by (rule split_mask)
  then have "w AND NOT (mask 3) = w"
    using z by simp
  then show "get_size w = w"
    by (simp add: get_size_def SIZE_BITMASK_def mask_eq_decr_exp)
  have "w AND 1 = (w AND mask 3) AND 1"
    by (simp add: and.assoc mask_eq_decr_exp)
  then show "\<not> is_malloc w"
    using z by (simp add: is_malloc_def MALLOC_def)
qed

lemma dvd_sub_8:
  fixes w :: size_t
  assumes "8 dvd unat w" "\<not> w < 16"
  shows "8 dvd unat (w - 8)"
proof -
  have "8 \<le> w" using assms(2) by unat_arith
  then have "unat (w - 8) = unat w - 8"
    by (simp add: unat_sub)
  then show ?thesis
    using assms(1) by (simp add: dvd_diff_nat) 
qed

lemma unat_add_no_wrap:
  fixes a b :: size_t
  assumes "unat a + unat b < 2 ^ 64"
  shows "unat (a + b) = unat a + unat b"
  using assms unat_add_lem [of a b] by simp

lemma init_block_walk:
  fixes base sz :: size_t
  assumes "\<not> sz < 16" "unat base + unat sz < 2 ^ 64"
  shows "base < base + sz" "base + (sz - 8) + 8 = base + sz"
proof -
  have "0 < unat sz"
    using assms(1) by unat_arith
  then show "base < base + sz"
    using unat_add_no_wrap [OF assms(2)] by (simp add: word_less_nat_alt)
  show "base + (sz - 8) + 8 = base + sz"
    by simp
qed

text \<open>
  What \<^verbatim>\<open>myinit\<close> does, for every base and size: it fails exactly when the size is
  below \<^verbatim>\<open>HEADER_SIZE + ALIGNMENT\<close> (implicit) or \<^verbatim>\<open>HEADER_SIZE + 2 * ALIGNMENT\<close>
  (explicit). Otherwise it succeeds, stores the word \<open>size - HEADER_SIZE\<close> in the header
  at the base and nothing else (explicit: and \<^verbatim>\<open>NULL\<close> in the two link fields), sets
  \<^verbatim>\<open>nused = 0\<close>, \<^verbatim>\<open>num_usedblocks = 0\<close>, \<^verbatim>\<open>num_freeblocks = 1\<close> and, in the explicit
  variant, \<^verbatim>\<open>first_free\<close> to the base, a one-node list. When the size is a multiple of 8
  that word is a free header with payload size \<open>size - HEADER_SIZE\<close>, and when moreover
  base + size does not wrap it is the single block of the segment.
\<close>

lemma myinit_effect:
  "((fst (myinit_i base sz s) = False \<longleftrightarrow> sz < HEADER_SIZE + ALIGNMENT) \<and>
    (\<not> sz < HEADER_SIZE + ALIGNMENT \<longrightarrow>
      (let s' = snd (myinit_i base sz s) in
         mem s' base = sz - HEADER_SIZE \<and>
         (\<forall>a. a \<noteq> base \<longrightarrow> mem s' a = mem s a) \<and>
         segment_start s' = base \<and> segment_end s' = base + sz \<and> segment_size s' = sz \<and>
         nused s' = 0 \<and> num_usedblocks s' = 0 \<and> num_freeblocks s' = 1 \<and>
         (8 dvd unat sz \<longrightarrow>
            \<not> is_malloc (mem s' base) \<and> get_size (mem s' base) = sz - HEADER_SIZE) \<and>
         (8 dvd unat sz \<and> unat base + unat sz < 2 ^ 64 \<longrightarrow> blocks_from s' base [base])))) \<and>
   ((fst (myinit_e base sz t) = False \<longleftrightarrow> sz < HEADER_SIZE + 2 * ALIGNMENT) \<and>
    (\<not> sz < HEADER_SIZE + 2 * ALIGNMENT \<longrightarrow>
      (let t' = snd (myinit_e base sz t) in
         mem t' base = sz - HEADER_SIZE \<and>
         (\<forall>a. a \<noteq> base \<and> a \<noteq> prev_field base \<and> a \<noteq> next_field base \<longrightarrow>
              mem t' a = mem t a) \<and>
         segment_start t' = base \<and> segment_end t' = base + sz \<and> segment_size t' = sz \<and>
         nused t' = 0 \<and> num_usedblocks t' = 0 \<and> num_freeblocks t' = 1 \<and>
         first_free t' = base \<and>
         mem t' (prev_field base) = NULL \<and> mem t' (next_field base) = NULL \<and>
         (base \<noteq> NULL \<longrightarrow> nodes_from t' (first_free t') [base]) \<and>
         (8 dvd unat sz \<longrightarrow>
            \<not> is_malloc (mem t' base) \<and> get_size (mem t' base) = sz - HEADER_SIZE) \<and>
         (8 dvd unat sz \<and> unat base + unat sz < 2 ^ 64 \<longrightarrow> blocks_from t' base [base]))))"
proof -
  have al: "\<not> sz < 16 \<Longrightarrow> 8 dvd unat sz \<Longrightarrow>
      \<not> is_malloc (sz - 8) \<and> get_size (sz - 8) = sz - 8"
    using aligned_header_word [OF dvd_sub_8] by simp
  have wk: "\<not> sz < 16 \<Longrightarrow> unat base + unat sz < 2 ^ 64 \<Longrightarrow>
      base < base + sz \<and> base + (sz - 8) + 8 = base + sz"
    using init_block_walk by simp
  have lt: "\<not> sz < 24 \<Longrightarrow> \<not> sz < 16"
    by unat_arith
  have i: "(fst (myinit_i base sz s) = False \<longleftrightarrow> sz < HEADER_SIZE + ALIGNMENT) \<and>
    (\<not> sz < HEADER_SIZE + ALIGNMENT \<longrightarrow>
      (let s' = snd (myinit_i base sz s) in
         mem s' base = sz - HEADER_SIZE \<and>
         (\<forall>a. a \<noteq> base \<longrightarrow> mem s' a = mem s a) \<and>
         segment_start s' = base \<and> segment_end s' = base + sz \<and> segment_size s' = sz \<and>
         nused s' = 0 \<and> num_usedblocks s' = 0 \<and> num_freeblocks s' = 1 \<and>
         (8 dvd unat sz \<longrightarrow>
            \<not> is_malloc (mem s' base) \<and> get_size (mem s' base) = sz - HEADER_SIZE) \<and>
         (8 dvd unat sz \<and> unat base + unat sz < 2 ^ 64 \<longrightarrow> blocks_from s' base [base])))"
    using al wk
    by (auto simp: myinit_i_def HEADER_SIZE_def ALIGNMENT_def Let_def)
  have e: "(fst (myinit_e base sz t) = False \<longleftrightarrow> sz < HEADER_SIZE + 2 * ALIGNMENT) \<and>
    (\<not> sz < HEADER_SIZE + 2 * ALIGNMENT \<longrightarrow>
      (let t' = snd (myinit_e base sz t) in
         mem t' base = sz - HEADER_SIZE \<and>
         (\<forall>a. a \<noteq> base \<and> a \<noteq> prev_field base \<and> a \<noteq> next_field base \<longrightarrow>
              mem t' a = mem t a) \<and>
         segment_start t' = base \<and> segment_end t' = base + sz \<and> segment_size t' = sz \<and>
         nused t' = 0 \<and> num_usedblocks t' = 0 \<and> num_freeblocks t' = 1 \<and>
         first_free t' = base \<and>
         mem t' (prev_field base) = NULL \<and> mem t' (next_field base) = NULL \<and>
         (base \<noteq> NULL \<longrightarrow> nodes_from t' (first_free t') [base]) \<and>
         (8 dvd unat sz \<longrightarrow>
            \<not> is_malloc (mem t' base) \<and> get_size (mem t' base) = sz - HEADER_SIZE) \<and>
         (8 dvd unat sz \<and> unat base + unat sz < 2 ^ 64 \<longrightarrow> blocks_from t' base [base])))"
    using al wk lt
    by (auto simp: myinit_e_def HEADER_SIZE_def ALIGNMENT_def Let_def prev_field_def
        next_field_def NULL_def)
  show ?thesis
    using i e by blast
qed

lemma myinit_effect_instance:
  "fst (myinit_i 4096 1024 zero_heap_i) \<and> fst (myinit_e 4096 1024 zero_heap_e) \<and>
   \<not> is_malloc (mem (snd (myinit_i 4096 1024 zero_heap_i)) 4096) \<and>
   get_size (mem (snd (myinit_i 4096 1024 zero_heap_i)) 4096) = 1016 \<and>
   blocks_from (snd (myinit_i 4096 1024 zero_heap_i)) 4096 [4096] \<and>
   \<not> is_malloc (mem (snd (myinit_e 4096 1024 zero_heap_e)) 4096) \<and>
   get_size (mem (snd (myinit_e 4096 1024 zero_heap_e)) 4096) = 1016 \<and>
   blocks_from (snd (myinit_e 4096 1024 zero_heap_e)) 4096 [4096] \<and>
   nodes_from (snd (myinit_e 4096 1024 zero_heap_e))
     (first_free (snd (myinit_e 4096 1024 zero_heap_e))) [4096] \<and>
   mem (snd (myinit_i 4096 1024 zero_heap_i)) 4104 = mem zero_heap_i 4104 \<and>
   mem (snd (myinit_e 4096 1024 zero_heap_e)) 4120 = mem zero_heap_e 4120"
  using myinit_effect [of 4096 1024 zero_heap_i zero_heap_e]
  by (simp add: HEADER_SIZE_def ALIGNMENT_def NULL_def Let_def
      is_malloc_def get_size_def MALLOC_def SIZE_BITMASK_def prev_field_def next_field_def)

text \<open>
  C7 fails on the code. \<^verbatim>\<open>myinit\<close> stores \<open>heap_size - HEADER_SIZE\<close> as it is, where
  \<^verbatim>\<open>mymalloc\<close> rounds every size to a multiple of 8. \<^verbatim>\<open>myinit(4096, 25)\<close> returns true
  in both variants and stores 17: \<^verbatim>\<open>is_malloc\<close> reads the only block as allocated and
  \<^verbatim>\<open>get_size\<close> as 16, not as the free block of payload 17 that \<^verbatim>\<open>num_freeblocks = 1\<close>
  counts, and \<^verbatim>\<open>validate_heap\<close> returns false on the state \<^verbatim>\<open>myinit\<close> has just built.
\<close>

theorem myinit_unaligned_size_header_allocated:
  "fst (myinit_i 4096 25 zero_heap_i) \<and>
   is_malloc (mem (snd (myinit_i 4096 25 zero_heap_i)) 4096) \<and>
   get_size (mem (snd (myinit_i 4096 25 zero_heap_i)) 4096) = 16 \<and>
   num_freeblocks (snd (myinit_i 4096 25 zero_heap_i)) = 1 \<and>
   validate_heap_i (snd (myinit_i 4096 25 zero_heap_i)) = Some False \<and>
   fst (myinit_e 4096 25 zero_heap_e) \<and>
   is_malloc (mem (snd (myinit_e 4096 25 zero_heap_e)) 4096) \<and>
   get_size (mem (snd (myinit_e 4096 25 zero_heap_e)) 4096) = 16 \<and>
   num_freeblocks (snd (myinit_e 4096 25 zero_heap_e)) = 1 \<and>
   validate_heap_e (snd (myinit_e 4096 25 zero_heap_e)) = Some False"
  by code_simp

section \<open>Placement\<close>

lemma demo_i_reachable:
  "run_i (2 ^ 30) [Init 4096 64, Malloc 16] (zero_heap_i, []) = Some (demo_i, [4104])"
  by (simp add: myinit_i_def mymalloc_i_def zero_heap_i_def demo_i_def HEADER_SIZE_def
      ALIGNMENT_def roundup_def NULL_def find_first_free.simps get_size_def SIZE_BITMASK_def
      is_malloc_def MALLOC_def split_block_i_def Let_def fun_upd_twist)

lemma demo_e_reachable:
  "run_e (2 ^ 30) [Init 4096 64, Malloc 16] (zero_heap_e, []) = Some (demo_e, [4104])"
  by (simp add: myinit_e_def mymalloc_e_def zero_heap_e_def demo_e_def HEADER_SIZE_def
      ALIGNMENT_def roundup_def NULL_def find_freeblock.simps get_size_def SIZE_BITMASK_def
      is_malloc_def MALLOC_def split_block_e_def Let_def fun_upd_twist add_freeblock_def
      remove_freeblock_def prev_field_def next_field_def fun_eq_iff)

lemma find_first_free_blocks:
  "blocks_from s p bs \<Longrightarrow>
   find_first_free s p n = Some (case find (fits_i s n) bs of None \<Rightarrow> NULL | Some b \<Rightarrow> b)"
proof (induction bs arbitrary: p)
  case Nil
  then show ?case by (subst find_first_free.simps) simp
next
  case (Cons b bs)
  from Cons.prems have p: "p < segment_end s" "b = p"
    and rest: "blocks_from s (p + get_size (mem s p) + HEADER_SIZE) bs"
    by simp_all
  show ?case
  proof (cases "fits_i s n p")
    case True
    then show ?thesis
      using p by (subst find_first_free.simps) (simp add: fits_i_def)
  next
    case False
    have "find_first_free s p n =
        find_first_free s (p + get_size (mem s p) + HEADER_SIZE) n"
      using p False by (subst find_first_free.simps) (auto simp: fits_i_def)
    then show ?thesis
      using Cons.IH [OF rest] False p by simp
  qed
qed

lemma find_freeblock_nodes:
  "nodes_from s p ns \<Longrightarrow>
   find_freeblock s p n = Some (case find (fits_e s n) ns of None \<Rightarrow> NULL | Some b \<Rightarrow> b)"
proof (induction ns arbitrary: p)
  case Nil
  then show ?case by (subst find_freeblock.simps) simp
next
  case (Cons b ns)
  from Cons.prems have p: "p \<noteq> NULL" "b = p"
    and rest: "nodes_from s (mem s (next_field p)) ns"
    by simp_all
  show ?case
  proof (cases "fits_e s n p")
    case True
    then show ?thesis
      using p by (subst find_freeblock.simps) (simp add: fits_e_def)
  next
    case False
    have "find_freeblock s p n = find_freeblock s (mem s (next_field p)) n"
      using p False by (subst find_freeblock.simps) (auto simp: fits_e_def)
    then show ?thesis
      using Cons.IH [OF rest] False p by simp
  qed
qed

lemma block_end_above:
  fixes p sz e :: size_t
  assumes "unat p + unat sz + 8 \<le> unat e"
  shows "p < p + sz + 8"
  using assms by unat_arith

lemma blocks_from_sorted:
  assumes "blocks_from s p bs"
    and "\<forall>b \<in> set bs. unat b + unat (get_size (mem s b)) + 8 \<le> unat (segment_end s)"
  shows "sorted_wrt (<) bs \<and> (\<forall>b \<in> set bs. p \<le> b)"
  using assms
proof (induction bs arbitrary: p)
  case Nil
  then show ?case by simp
next
  case (Cons b bs)
  from Cons.prems(1) have p: "p < segment_end s" "b = p"
    and rest: "blocks_from s (p + get_size (mem s p) + HEADER_SIZE) bs"
    by simp_all
  have "unat p + unat (get_size (mem s p)) + 8 \<le> unat (segment_end s)"
    using Cons.prems(2) p by simp
  then have lt: "p < p + get_size (mem s p) + HEADER_SIZE"
    unfolding HEADER_SIZE_def by (rule block_end_above)
  have IH: "sorted_wrt (<) bs \<and>
      (\<forall>b \<in> set bs. p + get_size (mem s p) + HEADER_SIZE \<le> b)"
    using Cons.IH [OF rest] Cons.prems(2) by simp
  show ?case
    using IH lt p by auto
qed

lemma nodes_from_nonnull: "nodes_from s p ns \<Longrightarrow> NULL \<notin> set ns"
  by (induction ns arbitrary: p) auto

lemma find_first_split:
  "find P xs = Some x \<Longrightarrow> \<exists>pre post. xs = pre @ x # post \<and> P x \<and> (\<forall>y \<in> set pre. \<not> P y)"
proof (induction xs)
  case Nil
  then show ?case by simp
next
  case (Cons a xs)
  show ?case
  proof (cases "P a")
    case True
    with Cons.prems have "a = x" by simp
    with True have "a # xs = [] @ x # xs \<and> P x \<and> (\<forall>y \<in> set []. \<not> P y)" by simp
    then show ?thesis by blast
  next
    case False
    with Cons.prems have "find P xs = Some x" by simp
    from Cons.IH [OF this] obtain pre post
      where "xs = pre @ x # post" "P x" "\<forall>y \<in> set pre. \<not> P y" by blast
    with False have "a # xs = (a # pre) @ x # post \<and> P x \<and> (\<forall>y \<in> set (a # pre). \<not> P y)"
      by simp
    then show ?thesis by blast
  qed
qed

lemma sorted_first_least:
  fixes xs :: "size_t list"
  assumes "sorted_wrt (<) xs" "xs = pre @ x # post" "\<forall>y \<in> set pre. \<not> P y" "b \<in> set xs" "P b"
  shows "x \<le> b"
proof -
  have "b = x \<or> b \<in> set post"
    using assms(2-5) by auto
  moreover have "\<forall>y \<in> set post. x < y"
    using assms(1,2) by (simp add: sorted_wrt_append)
  ultimately show ?thesis by auto
qed

lemma find_first_free_least:
  assumes walk: "blocks_from s (segment_start s) bs"
    and inside: "\<forall>b \<in> set bs. unat b + unat (get_size (mem s b)) + 8 \<le> unat (segment_end s)"
    and nz: "segment_start s \<noteq> NULL"
    and res: "find_first_free s (segment_start s) n = Some r"
  shows "(r = NULL \<longleftrightarrow> \<not> (\<exists>b \<in> set bs. fits_i s n b)) \<and>
    (r \<noteq> NULL \<longrightarrow> r \<in> set bs \<and> fits_i s n r \<and> (\<forall>b \<in> set bs. fits_i s n b \<longrightarrow> r \<le> b))"
proof -
  have srt: "sorted_wrt (<) bs" and ge: "\<forall>b \<in> set bs. segment_start s \<le> b"
    using blocks_from_sorted [OF walk inside] by simp_all
  have nn: "NULL \<notin> set bs"
    using ge nz by (auto simp: NULL_def)
  have r: "r = (case find (fits_i s n) bs of None \<Rightarrow> NULL | Some b \<Rightarrow> b)"
    using find_first_free_blocks [OF walk, of n] res by simp
  show ?thesis
  proof (cases "find (fits_i s n) bs")
    case None
    then have "r = NULL"
      using r by simp
    moreover have "\<not> (\<exists>b \<in> set bs. fits_i s n b)"
      using None by (simp add: find_None_iff)
    ultimately show ?thesis
      by simp
  next
    case (Some x)
    then have rx: "r = x" using r by simp
    from find_first_split [OF Some] obtain pre post
      where sp: "bs = pre @ x # post" "fits_i s n x" "\<forall>y \<in> set pre. \<not> fits_i s n y"
      by blast
    have mem: "x \<in> set bs" using sp(1) by simp
    have least: "\<forall>b \<in> set bs. fits_i s n b \<longrightarrow> x \<le> b"
      using sorted_first_least [OF srt sp(1) sp(3)] by blast
    show ?thesis
      using rx mem sp(2) least nn by auto
  qed
qed

lemma find_freeblock_first:
  assumes walk: "nodes_from t (first_free t) ns"
    and res: "find_freeblock t (first_free t) n = Some r"
  shows "(r = NULL \<longleftrightarrow> \<not> (\<exists>b \<in> set ns. fits_e t n b)) \<and>
    (r \<noteq> NULL \<longrightarrow>
       (\<exists>pre post. ns = pre @ r # post \<and> fits_e t n r \<and> (\<forall>b \<in> set pre. \<not> fits_e t n b)))"
proof -
  have nn: "NULL \<notin> set ns"
    using nodes_from_nonnull [OF walk] .
  have r: "r = (case find (fits_e t n) ns of None \<Rightarrow> NULL | Some b \<Rightarrow> b)"
    using find_freeblock_nodes [OF walk, of n] res by simp
  show ?thesis
  proof (cases "find (fits_e t n) ns")
    case None
    then have "r = NULL"
      using r by simp
    moreover have "\<not> (\<exists>b \<in> set ns. fits_e t n b)"
      using None by (simp add: find_None_iff)
    ultimately show ?thesis
      by simp
  next
    case (Some x)
    then have rx: "r = x" using r by simp
    from find_first_split [OF Some] obtain pre post
      where sp: "ns = pre @ x # post" "fits_e t n x" "\<forall>y \<in> set pre. \<not> fits_e t n y"
      by blast
    have "x \<in> set ns" using sp(1) by simp
    then have "x \<noteq> NULL" using nn by auto
    then show ?thesis
      using rx sp by auto
  qed
qed

text \<open>
  The placement search on a traversal that ends returns the first element that passes
  its test, and \<^verbatim>\<open>NULL\<close> exactly when none does. Implicit: over the blocks \<open>bs\<close> met
  from \<^verbatim>\<open>segment_start\<close>, the result is the first one that is free and large enough;
  when the blocks lie inside the segment and the segment does not start at address 0,
  that is the fitting free block of lowest address. Explicit: over the nodes \<open>ns\<close> met
  from \<^verbatim>\<open>first_free\<close> along \<^verbatim>\<open>next\<close>, the result is the first node that is large
  enough; \<^verbatim>\<open>find_freeblock\<close> does not look at the allocated bit, so this is a free
  block only as long as every node of the list is one.
\<close>

lemma placement_first_fit:
  "(blocks_from s (segment_start s) bs \<longrightarrow>
      find_first_free s (segment_start s) n =
        Some (case find (fits_i s n) bs of None \<Rightarrow> NULL | Some b \<Rightarrow> b) \<and>
      ((\<forall>b \<in> set bs. unat b + unat (get_size (mem s b)) + 8 \<le> unat (segment_end s)) \<and>
       segment_start s \<noteq> NULL \<longrightarrow>
         (\<exists>r. find_first_free s (segment_start s) n = Some r \<and>
            (r = NULL \<longleftrightarrow> \<not> (\<exists>b \<in> set bs. fits_i s n b)) \<and>
            (r \<noteq> NULL \<longrightarrow> r \<in> set bs \<and> fits_i s n r \<and>
               (\<forall>b \<in> set bs. fits_i s n b \<longrightarrow> r \<le> b))))) \<and>
   (nodes_from t (first_free t) ns \<longrightarrow>
      find_freeblock t (first_free t) n =
        Some (case find (fits_e t n) ns of None \<Rightarrow> NULL | Some b \<Rightarrow> b) \<and>
      (\<exists>r. find_freeblock t (first_free t) n = Some r \<and>
         (r = NULL \<longleftrightarrow> \<not> (\<exists>b \<in> set ns. fits_e t n b)) \<and>
         (r \<noteq> NULL \<longrightarrow>
            (\<exists>pre post. ns = pre @ r # post \<and> fits_e t n r \<and>
               (\<forall>b \<in> set pre. \<not> fits_e t n b)))))"
proof (intro conjI impI)
  assume walk: "blocks_from s (segment_start s) bs"
  show "find_first_free s (segment_start s) n =
      Some (case find (fits_i s n) bs of None \<Rightarrow> NULL | Some b \<Rightarrow> b)"
    by (rule find_first_free_blocks [OF walk])
next
  assume walk: "blocks_from s (segment_start s) bs"
    and side: "(\<forall>b \<in> set bs. unat b + unat (get_size (mem s b)) + 8 \<le> unat (segment_end s)) \<and>
       segment_start s \<noteq> NULL"
  obtain r where r: "find_first_free s (segment_start s) n = Some r"
    using find_first_free_blocks [OF walk, of n] by simp
  from find_first_free_least [OF walk _ _ r] side r
  show "\<exists>r. find_first_free s (segment_start s) n = Some r \<and>
            (r = NULL \<longleftrightarrow> \<not> (\<exists>b \<in> set bs. fits_i s n b)) \<and>
            (r \<noteq> NULL \<longrightarrow> r \<in> set bs \<and> fits_i s n r \<and>
               (\<forall>b \<in> set bs. fits_i s n b \<longrightarrow> r \<le> b))"
    by blast
next
  assume walk: "nodes_from t (first_free t) ns"
  show "find_freeblock t (first_free t) n =
        Some (case find (fits_e t n) ns of None \<Rightarrow> NULL | Some b \<Rightarrow> b)"
    by (rule find_freeblock_nodes [OF walk])
next
  assume walk: "nodes_from t (first_free t) ns"
  obtain r where r: "find_freeblock t (first_free t) n = Some r"
    using find_freeblock_nodes [OF walk, of n] by simp
  from find_freeblock_first [OF walk r] r
  show "\<exists>r. find_freeblock t (first_free t) n = Some r \<and>
         (r = NULL \<longleftrightarrow> \<not> (\<exists>b \<in> set ns. fits_e t n b)) \<and>
         (r \<noteq> NULL \<longrightarrow>
            (\<exists>pre post. ns = pre @ r # post \<and> fits_e t n r \<and>
               (\<forall>b \<in> set pre. \<not> fits_e t n b)))"
    by blast
qed

lemma placement_first_fit_instance:
  "blocks_from demo_i (segment_start demo_i) [4096, 4120] \<and>
   unat (4096 :: ptr) + unat (get_size (mem demo_i 4096)) + 8 \<le> unat (segment_end demo_i) \<and>
   unat (4120 :: ptr) + unat (get_size (mem demo_i 4120)) + 8 \<le> unat (segment_end demo_i) \<and>
   segment_start demo_i \<noteq> NULL \<and>
   find_first_free demo_i (segment_start demo_i) 24 = Some 4120 \<and>
   find_first_free demo_i (segment_start demo_i) 40 = Some NULL \<and>
   nodes_from demo_e (first_free demo_e) [4120] \<and>
   find_freeblock demo_e (first_free demo_e) 24 = Some 4120 \<and>
   find_freeblock demo_e (first_free demo_e) 40 = Some NULL"
proof -
  have w: "blocks_from demo_i (segment_start demo_i) [4096, 4120]"
    by (simp add: demo_i_def get_size_def SIZE_BITMASK_def HEADER_SIZE_def)
  have i: "\<forall>b \<in> set [4096, 4120 :: ptr].
      unat b + unat (get_size (mem demo_i b)) + 8 \<le> unat (segment_end demo_i)"
    by (simp add: demo_i_def get_size_def SIZE_BITMASK_def)
  have z: "segment_start demo_i \<noteq> NULL"
    by (simp add: demo_i_def NULL_def)
  have l: "nodes_from demo_e (first_free demo_e) [4120]"
    by (simp add: demo_e_def NULL_def next_field_def)
  have f24: "find (fits_i demo_i 24) [4096, 4120] = Some 4120"
    and f40: "find (fits_i demo_i 40) [4096, 4120] = None"
    and g24: "find (fits_e demo_e 24) [4120] = Some 4120"
    and g40: "find (fits_e demo_e 40) [4120] = None"
    by (simp_all add: fits_i_def fits_e_def demo_i_def demo_e_def get_size_def SIZE_BITMASK_def
        is_malloc_def MALLOC_def)
  have r: "find_first_free demo_i (segment_start demo_i) 24 = Some 4120 \<and>
      find_first_free demo_i (segment_start demo_i) 40 = Some NULL \<and>
      find_freeblock demo_e (first_free demo_e) 24 = Some 4120 \<and>
      find_freeblock demo_e (first_free demo_e) 40 = Some NULL"
    using w i z l
      placement_first_fit [of demo_i "[4096, 4120]" 24 demo_e "[4120]"]
      placement_first_fit [of demo_i "[4096, 4120]" 40 demo_e "[4120]"]
    by (simp only: f24 f40 g24 g40) simp
  have i2: "unat (4096 :: ptr) + unat (get_size (mem demo_i 4096)) + 8
        \<le> unat (segment_end demo_i)"
      "unat (4120 :: ptr) + unat (get_size (mem demo_i 4120)) + 8
        \<le> unat (segment_end demo_i)"
    using i by simp_all
  show ?thesis
    using w i2 z l r by blast
qed

text \<open>
  C8 fails on the code in the explicit variant. After the valid calls below the segment
  holds an allocated block of payload 32 at 4096 and a free block of payload 16 at 4136;
  the free block is \<^verbatim>\<open>first_free\<close> and its \<^verbatim>\<open>next\<close> is a stale link to the allocated
  block (\<^verbatim>\<open>add_freeblock\<close> on an empty list does not reset the links, the defect of C1).
  No free block has payload 24 or more, yet \<^verbatim>\<open>find_freeblock\<close>, asked for 24, does not
  report failure: it returns the allocated block at 4096.
\<close>

theorem find_freeblock_returns_allocated_block:
  "(case run_e (2 ^ 30)
      [Init 4096 64, Malloc 32, Malloc 16, Free 0, Free 1, Malloc 16, Malloc 32, Free 2]
      (zero_heap_e, []) of
      None \<Rightarrow> False
    | Some (s, ps) \<Rightarrow>
        ps = [4104, 4144, 4144, 4104] \<and>
        first_free s = 4136 \<and> nodes_from s (first_free s) [4136, 4096] \<and>
        \<not> is_malloc (mem s 4136) \<and> get_size (mem s 4136) = 16 \<and>
        is_malloc (mem s 4096) \<and> get_size (mem s 4096) = 32 \<and>
        blocks_from s (segment_start s) [4096, 4136] \<and>
        find_freeblock s (first_free s) 24 = Some 4096)"
  by code_simp

section \<open>Allocation failure\<close>

lemma find_none_null:
  "\<forall>b \<in> set bs. \<not> P b \<Longrightarrow> (case find P bs of None \<Rightarrow> NULL | Some b \<Rightarrow> b) = NULL"
  by (simp add: find_None_iff [THEN iffD2])

text \<open>
  The early returns of \<^verbatim>\<open>mymalloc\<close>: either variant returns \<^verbatim>\<open>NULL\<close> and the state it
  was given (memory, counters and, explicit, \<^verbatim>\<open>first_free\<close>) when the request is 0 or
  above \<^verbatim>\<open>MAX_REQUEST_SIZE\<close>, when \<open>size_needed + nused > segment_size\<close> in the machine's
  arithmetic, and when the traversal ends and none of its elements passes the test of
  the search (implicit: no free block is large enough; explicit: no node of the list is
  large enough).
\<close>

lemma mymalloc_failure_unchanged:
  "(requested = 0 \<or> requested > MX \<longrightarrow> mymalloc_i MX s requested = Some (NULL, s)) \<and>
   (size_needed_i requested + nused s > segment_size s \<longrightarrow>
      mymalloc_i MX s requested = Some (NULL, s)) \<and>
   (blocks_from s (segment_start s) bs \<and>
    (\<forall>b \<in> set bs. \<not> fits_i s (size_needed_i requested) b) \<longrightarrow>
      mymalloc_i MX s requested = Some (NULL, s)) \<and>
   (requested = 0 \<or> requested > MX \<longrightarrow> mymalloc_e MX t requested = Some (NULL, t)) \<and>
   (size_needed_e requested + nused t > segment_size t \<longrightarrow>
      mymalloc_e MX t requested = Some (NULL, t)) \<and>
   (nodes_from t (first_free t) ns \<and>
    (\<forall>b \<in> set ns. \<not> fits_e t (size_needed_e requested) b) \<longrightarrow>
      mymalloc_e MX t requested = Some (NULL, t))"
proof (intro conjI impI)
  assume "requested = 0 \<or> requested > MX"
  then show "mymalloc_i MX s requested = Some (NULL, s)"
    by (auto simp: mymalloc_i_def)
next
  assume "size_needed_i requested + nused s > segment_size s"
  then show "mymalloc_i MX s requested = Some (NULL, s)"
    by (simp add: mymalloc_i_def size_needed_i_def Let_def)
next
  assume a: "blocks_from s (segment_start s) bs \<and>
    (\<forall>b \<in> set bs. \<not> fits_i s (size_needed_i requested) b)"
  then have "find_first_free s (segment_start s) (roundup requested ALIGNMENT) = Some NULL"
    using find_first_free_blocks [of s "segment_start s" bs "size_needed_i requested"]
      find_none_null [of bs "fits_i s (size_needed_i requested)"]
    by (simp add: size_needed_i_def)
  then show "mymalloc_i MX s requested = Some (NULL, s)"
    by (simp add: mymalloc_i_def Let_def)
next
  assume "requested = 0 \<or> requested > MX"
  then show "mymalloc_e MX t requested = Some (NULL, t)"
    by (auto simp: mymalloc_e_def)
next
  assume "size_needed_e requested + nused t > segment_size t"
  then show "mymalloc_e MX t requested = Some (NULL, t)"
    by (simp add: mymalloc_e_def size_needed_e_def Let_def)
next
  assume a: "nodes_from t (first_free t) ns \<and>
    (\<forall>b \<in> set ns. \<not> fits_e t (size_needed_e requested) b)"
  then have "find_freeblock t (first_free t) (size_needed_e requested) = Some NULL"
    using find_freeblock_nodes [of t "first_free t" ns "size_needed_e requested"]
      find_none_null [of ns "fits_e t (size_needed_e requested)"]
    by simp
  then show "mymalloc_e MX t requested = Some (NULL, t)"
    by (simp add: mymalloc_e_def size_needed_e_def Let_def)
qed

lemma mymalloc_failure_unchanged_instance:
  "mymalloc_i 1000 demo_i 0 = Some (NULL, demo_i) \<and>
   mymalloc_e 1000 demo_e 0 = Some (NULL, demo_e) \<and>
   mymalloc_i 1000 demo_i 1001 = Some (NULL, demo_i) \<and>
   mymalloc_e 1000 demo_e 1001 = Some (NULL, demo_e) \<and>
   size_needed_i 100 + nused demo_i > segment_size demo_i \<and>
   size_needed_e 100 + nused demo_e > segment_size demo_e \<and>
   mymalloc_i 1000 demo_i 100 = Some (NULL, demo_i) \<and>
   mymalloc_e 1000 demo_e 100 = Some (NULL, demo_e) \<and>
   blocks_from demo_i (segment_start demo_i) [4096, 4120] \<and>
   \<not> fits_i demo_i (size_needed_i 40) 4096 \<and>
   \<not> fits_i demo_i (size_needed_i 40) 4120 \<and>
   nodes_from demo_e (first_free demo_e) [4120] \<and>
   \<not> fits_e demo_e (size_needed_e 40) 4120 \<and>
   mymalloc_i 1000 demo_i 40 = Some (NULL, demo_i) \<and>
   mymalloc_e 1000 demo_e 40 = Some (NULL, demo_e)"
proof -
  have sz: "size_needed_i 100 = 104" "size_needed_e 100 = 104"
    "size_needed_i 40 = 40" "size_needed_e 40 = 40"
    by (simp_all add: size_needed_i_def size_needed_e_def roundup_def ALIGNMENT_def)
  have big: "size_needed_i 100 + nused demo_i > segment_size demo_i"
    "size_needed_e 100 + nused demo_e > segment_size demo_e"
    by (simp_all add: sz demo_i_def demo_e_def)
  have w: "blocks_from demo_i (segment_start demo_i) [4096, 4120]"
    by (simp add: demo_i_def get_size_def SIZE_BITMASK_def HEADER_SIZE_def)
  have l: "nodes_from demo_e (first_free demo_e) [4120]"
    by (simp add: demo_e_def NULL_def next_field_def)
  have nf: "\<forall>b \<in> set [4096, 4120 :: ptr]. \<not> fits_i demo_i (size_needed_i 40) b"
    "\<forall>b \<in> set [4120 :: ptr]. \<not> fits_e demo_e (size_needed_e 40) b"
    by (simp_all add: sz fits_i_def fits_e_def demo_i_def demo_e_def get_size_def
        SIZE_BITMASK_def is_malloc_def MALLOC_def)
  have gt: "(1001 :: size_t) > 1000"
    by simp
  have r0: "mymalloc_i 1000 demo_i 0 = Some (NULL, demo_i) \<and>
      mymalloc_e 1000 demo_e 0 = Some (NULL, demo_e)"
    using mymalloc_failure_unchanged [of 0 1000 demo_i "[]" demo_e "[]"] by blast
  have r1: "mymalloc_i 1000 demo_i 1001 = Some (NULL, demo_i) \<and>
      mymalloc_e 1000 demo_e 1001 = Some (NULL, demo_e)"
    using gt mymalloc_failure_unchanged [of 1001 1000 demo_i "[]" demo_e "[]"] by blast
  have r2: "mymalloc_i 1000 demo_i 100 = Some (NULL, demo_i) \<and>
      mymalloc_e 1000 demo_e 100 = Some (NULL, demo_e)"
    using big mymalloc_failure_unchanged [of 100 1000 demo_i "[]" demo_e "[]"] by blast
  have r3: "mymalloc_i 1000 demo_i 40 = Some (NULL, demo_i) \<and>
      mymalloc_e 1000 demo_e 40 = Some (NULL, demo_e)"
    using w l nf mymalloc_failure_unchanged [of 40 1000 demo_i "[4096, 4120]" demo_e "[4120]"]
    by blast
  have nf2: "\<not> fits_i demo_i (size_needed_i 40) 4096"
      "\<not> fits_i demo_i (size_needed_i 40) 4120"
      "\<not> fits_e demo_e (size_needed_e 40) 4120"
    using nf by simp_all
  show ?thesis
    using big w l nf2 r0 r1 r2 r3 by blast
qed

text \<open>
  C6 fails on the code in the explicit variant. In the state reached by the valid calls
  below, an allocated block of payload 32 at 4096 and a free block of payload 16 at
  4136, no free block fits a request of 24 bytes, and the size check passes
  (24 + 40 \<le> 64). \<^verbatim>\<open>mymalloc(24)\<close> does not return \<^verbatim>\<open>NULL\<close>: the search follows the
  stale \<^verbatim>\<open>next\<close> link of the free block (the defect of C1) to the allocated block and
  \<^verbatim>\<open>mymalloc\<close> returns 4104, a pointer that is still live, after adding \<^verbatim>\<open>MALLOC\<close> to
  its header (33 becomes 34, which reads as free) and 40 to \<^verbatim>\<open>nused\<close>.
\<close>

theorem mymalloc_e_returns_live_block:
  "(case run_e (2 ^ 30)
      [Init 4096 64, Malloc 32, Malloc 16, Free 0, Free 1, Malloc 16, Malloc 32, Free 2]
      (zero_heap_e, []) of
      None \<Rightarrow> False
    | Some (s, ps) \<Rightarrow>
        ps = [4104, 4144, 4144, 4104] \<and>
        blocks_from s (segment_start s) [4096, 4136] \<and>
        is_malloc (mem s 4096) \<and> get_size (mem s 4096) = 32 \<and>
        \<not> is_malloc (mem s 4136) \<and> get_size (mem s 4136) = 16 \<and>
        num_usedblocks s = 1 \<and> num_freeblocks s = 1 \<and>
        size_needed_e 24 = 24 \<and> nused s = 40 \<and> segment_size s = 64 \<and>
        \<not> size_needed_e 24 + nused s > segment_size s \<and>
        (case mymalloc_e (2 ^ 30) s 24 of
           None \<Rightarrow> False
         | Some (r, s') \<Rightarrow>
             r = 4104 \<and> mem s 4096 = 33 \<and> mem s' 4096 = 34 \<and> nused s' = 80 \<and>
             num_usedblocks s' = 2 \<and> num_freeblocks s' = 0))"
  by code_simp

section \<open>Freeing in the implicit allocator\<close>

lemma clear_alloc_bit:
  fixes w :: size_t
  assumes "is_malloc w"
  shows "w - MALLOC = w AND NOT 1" "get_size (w - MALLOC) = get_size w" "\<not> is_malloc (w - MALLOC)"
proof -
  have one: "w AND 1 = 1"
    using assms by (auto simp: is_malloc_def MALLOC_def and_one_eq)
  have "(w AND 1) + (w AND NOT 1) = w"
    using split_mask [of w 1] by simp
  then have eq: "w - 1 = w AND NOT 1"
    using one by (simp add: algebra_simps)
  then show "w - MALLOC = w AND NOT 1"
    by (simp add: MALLOC_def)
  have "(w AND NOT 1) AND NOT 7 = w AND NOT 7"
    by (simp add: and.assoc flip: bit.de_Morgan_disj)
  then show "get_size (w - MALLOC) = get_size w"
    using eq by (simp add: get_size_def SIZE_BITMASK_def MALLOC_def)
  have "(w AND NOT 1) AND 1 = 0"
    by (simp add: and.assoc)
  then show "\<not> is_malloc (w - MALLOC)"
    using eq by (simp add: is_malloc_def MALLOC_def)
qed

lemma blocks_from_cong:
  assumes "\<forall>a. get_size (mem s' a) = get_size (mem s a)" "segment_end s' = segment_end s"
  shows "blocks_from s' p bs = blocks_from s p bs"
  using assms by (induction bs arbitrary: p) auto

text \<open>
  C9: for a non-null \<open>p\<close> whose block is allocated, the implicit \<^verbatim>\<open>myfree\<close> changes
  the header word of the block, clearing bit 0, and the three counters, and nothing
  else: every other word of memory is the same, every size field is the same, and every
  walk over the blocks meets the same headers, so no blocks are merged.
\<close>

theorem myfree_i_frame:
  assumes "p \<noteq> NULL" and "is_malloc (mem s (get_header p))"
  shows "myfree_i s p =
      s\<lparr>mem := (mem s)(get_header p := mem s (get_header p) AND NOT 1),
        num_usedblocks := num_usedblocks s - 1,
        num_freeblocks := num_freeblocks s + 1,
        nused := nused s - (get_size (mem s (get_header p)) + HEADER_SIZE)\<rparr> \<and>
    (\<forall>a. a \<noteq> get_header p \<longrightarrow> mem (myfree_i s p) a = mem s a) \<and>
    \<not> is_malloc (mem (myfree_i s p) (get_header p)) \<and>
    (\<forall>a. get_size (mem (myfree_i s p) a) = get_size (mem s a)) \<and>
    (\<forall>q bs. blocks_from (myfree_i s p) q bs = blocks_from s q bs)"
proof -
  let ?h = "get_header p"
  let ?s' = "s\<lparr>mem := (mem s)(?h := mem s ?h AND NOT 1),
        num_usedblocks := num_usedblocks s - 1,
        num_freeblocks := num_freeblocks s + 1,
        nused := nused s - (get_size (mem s ?h) + HEADER_SIZE)\<rparr>"
  have eq: "myfree_i s p = ?s'"
    using assms(1) clear_alloc_bit(1,2) [OF assms(2)]
    by (simp add: myfree_i_def Let_def)
  have sz: "\<forall>a. get_size (mem ?s' a) = get_size (mem s a)"
    using clear_alloc_bit(1,2) [OF assms(2)] by auto
  have fr: "\<not> is_malloc (mem ?s' ?h)"
    using clear_alloc_bit(1,3) [OF assms(2)] by simp
  have bl: "\<forall>q bs. blocks_from ?s' q bs = blocks_from s q bs"
    using blocks_from_cong [OF sz] by simp
  show ?thesis
    unfolding eq using sz fr bl by simp
qed

theorem myfree_i_frame_witness:
  "(4104 :: ptr) \<noteq> NULL \<and> is_malloc (mem demo_i (get_header 4104)) \<and>
   myfree_i demo_i 4104 =
     demo_i\<lparr>mem := (mem demo_i)(4096 := 16), num_usedblocks := 0, num_freeblocks := 2,
       nused := 0\<rparr> \<and>
   blocks_from (myfree_i demo_i 4104) 4096 [4096, 4120]"
proof -
  have p: "(4104 :: ptr) \<noteq> NULL"
    by (simp add: NULL_def)
  have a: "is_malloc (mem demo_i (get_header 4104))"
    by (simp add: demo_i_def get_header_def HEADER_SIZE_def is_malloc_def MALLOC_def)
  have w: "blocks_from demo_i 4096 [4096, 4120]"
    by (simp add: demo_i_def get_size_def SIZE_BITMASK_def HEADER_SIZE_def)
  have v: "get_header 4104 = 4096" "mem demo_i 4096 AND - 2 = 16"
    "get_size (mem demo_i 4096) + HEADER_SIZE = 24" "nused demo_i = 24"
    "num_usedblocks demo_i = 1" "num_freeblocks demo_i = 1"
    by (simp_all add: demo_i_def get_header_def HEADER_SIZE_def get_size_def SIZE_BITMASK_def)
  have e1: "myfree_i demo_i 4104 =
     demo_i\<lparr>mem := (mem demo_i)(4096 := 16), num_usedblocks := 0, num_freeblocks := 2,
       nused := 0\<rparr>"
    using myfree_i_frame [OF p a] by (simp add: v)
  have e2: "blocks_from (myfree_i demo_i 4104) 4096 [4096, 4120]"
    using myfree_i_frame [OF p a] w by blast
  show ?thesis
    using p a e1 e2 by blast
qed

section \<open>The payload size a successful allocation records\<close>

lemma find_first_free_result:
  assumes "find_first_free s p n = Some r"
  shows "r \<noteq> NULL \<longrightarrow> r < segment_end s \<and> fits_i s n r"
proof (rule find_first_free.raw_induct
    [where P = "\<lambda>s p n r. r \<noteq> NULL \<longrightarrow> r < segment_end s \<and> fits_i s n r", OF _ assms])
  fix f s p n r
  assume IH: "\<And>s p n r. f s p n = Some r \<Longrightarrow>
      r \<noteq> NULL \<longrightarrow> r < segment_end s \<and> fits_i s n r"
    and step: "(if p < segment_end s
      then if n \<le> get_size (mem s p) \<and> \<not> is_malloc (mem s p) then Some p
           else f s (p + get_size (mem s p) + HEADER_SIZE) n
      else Some NULL) = Some r"
  show "r \<noteq> NULL \<longrightarrow> r < segment_end s \<and> fits_i s n r"
  proof (cases "p < segment_end s")
    case False
    with step show ?thesis by simp
  next
    case inside: True
    show ?thesis
    proof (cases "fits_i s n p")
      case True
      with inside step have "r = p" by (simp add: fits_i_def)
      with inside True show ?thesis by simp
    next
      case False
      with inside step have "f s (p + get_size (mem s p) + HEADER_SIZE) n = Some r"
        by (auto simp: fits_i_def)
      then show ?thesis by (rule IH)
    qed
  qed
qed

lemma find_freeblock_result:
  assumes "find_freeblock s p n = Some r"
  shows "r \<noteq> NULL \<longrightarrow> fits_e s n r"
proof (rule find_freeblock.raw_induct
    [where P = "\<lambda>s p n r. r \<noteq> NULL \<longrightarrow> fits_e s n r", OF _ assms])
  fix f s p n r
  assume IH: "\<And>s p n r. f s p n = Some r \<Longrightarrow> r \<noteq> NULL \<longrightarrow> fits_e s n r"
    and step: "(if p \<noteq> NULL
      then if n \<le> get_size (mem s p) then Some p
           else f s (mem s (next_field p)) n
      else Some NULL) = Some r"
  show "r \<noteq> NULL \<longrightarrow> fits_e s n r"
  proof (cases "p \<noteq> NULL")
    case False
    with step show ?thesis by simp
  next
    case nonnull: True
    show ?thesis
    proof (cases "fits_e s n p")
      case True
      with nonnull step have "r = p" by (simp add: fits_e_def)
      with True show ?thesis by simp
    next
      case False
      with nonnull step have "f s (mem s (next_field p)) n = Some r"
        by (auto simp: fits_e_def)
      then show ?thesis by (rule IH)
    qed
  qed
qed

lemma set_alloc_bit:
  fixes w :: size_t
  assumes "\<not> is_malloc w"
  shows "get_size (w + MALLOC) = get_size w" "is_malloc (w + MALLOC)"
proof -
  have z: "w AND 1 = 0"
    using assms by (simp add: is_malloc_def MALLOC_def)
  then have eq: "w + 1 = w OR 1"
    by (simp add: disjunctive_add_eq_or)
  have "(w OR 1) AND NOT 7 = w AND NOT 7"
    by (simp add: bit.conj_disj_distrib2)
  then show "get_size (w + MALLOC) = get_size w"
    using eq by (simp add: get_size_def SIZE_BITMASK_def MALLOC_def)
  have "(w OR 1) AND 1 = 1"
    by (simp add: bit.conj_disj_distrib2)
  then show "is_malloc (w + MALLOC)"
    using eq by (simp add: is_malloc_def MALLOC_def)
qed

lemma roundup_8_header:
  "get_size (roundup r ALIGNMENT) = roundup r ALIGNMENT" "\<not> is_malloc (roundup r ALIGNMENT)"
proof -
  have m: "NOT (7 :: size_t) AND NOT 7 = NOT 7" "NOT (7 :: size_t) AND 1 = 0"
    by simp_all
  show "get_size (roundup r ALIGNMENT) = roundup r ALIGNMENT"
    by (simp add: get_size_def roundup_def ALIGNMENT_def SIZE_BITMASK_def and.assoc)
  show "\<not> is_malloc (roundup r ALIGNMENT)"
    using m(2) by (simp add: is_malloc_def roundup_def ALIGNMENT_def MALLOC_def and.assoc)
qed

lemma size_needed_header:
  "get_size (size_needed_i r) = size_needed_i r" "\<not> is_malloc (size_needed_i r)"
  "get_size (size_needed_e r) = size_needed_e r" "\<not> is_malloc (size_needed_e r)"
  using roundup_8_header [of r]
  by (auto simp: size_needed_i_def size_needed_e_def ALIGNMENT_def get_size_def SIZE_BITMASK_def
      is_malloc_def MALLOC_def)

lemma remove_freeblock_header:
  assumes "mem s (prev_field b) = NULL \<or> next_field (mem s (prev_field b)) \<noteq> b"
    and "mem s (next_field b) = NULL \<or> prev_field (mem s (next_field b)) \<noteq> b"
  shows "mem (remove_freeblock b s) b = mem s b"
  using assms by (auto simp: remove_freeblock_def Let_def)

lemma add_freeblock_mem:
  "mem (add_freeblock blk s) a =
     (if first_free s = NULL then mem s a
      else if a = next_field blk then first_free s
      else if a = prev_field blk then NULL
      else if a = prev_field (first_free s) then blk
      else mem s a)"
  by (simp add: add_freeblock_def Let_def)

lemma split_geometry:
  fixes b N S :: size_t
  assumes "16 \<le> N" "N \<le> S" "24 \<le> S - N"
  shows "b + (N + 8) \<noteq> b" "prev_field (b + (N + 8)) \<noteq> b" "next_field (b + (N + 8)) \<noteq> b"
    "b + (N + 8) \<noteq> prev_field b" "next_field (b + (N + 8)) \<noteq> prev_field b"
    "b + (N + 8) \<noteq> next_field b" "prev_field (b + (N + 8)) \<noteq> next_field b"
    "prev_field (b + (N + 8)) \<noteq> prev_field b" "next_field (b + (N + 8)) \<noteq> next_field b"
proof -
  have u: "16 \<le> unat N" "unat N + 24 \<le> unat S"
    using assms by unat_arith+
  have n: "N + 8 \<noteq> 0" "N + 16 \<noteq> 0" "N + 24 \<noteq> 0" "N \<noteq> 0" "N \<noteq> 8"
    using u by unat_arith+
  have c: "\<And>x :: size_t. (b + x = b) = (x = 0)"
    by simp
  show "b + (N + 8) \<noteq> b" "prev_field (b + (N + 8)) \<noteq> b" "next_field (b + (N + 8)) \<noteq> b"
    "b + (N + 8) \<noteq> prev_field b" "next_field (b + (N + 8)) \<noteq> prev_field b"
    "b + (N + 8) \<noteq> next_field b" "prev_field (b + (N + 8)) \<noteq> next_field b"
    "prev_field (b + (N + 8)) \<noteq> prev_field b" "next_field (b + (N + 8)) \<noteq> next_field b"
    using n by (simp_all add: prev_field_def next_field_def add.assoc add.commute)
qed

lemma split_block_e_cells:
  assumes free: "\<not> is_malloc (mem t b)"
    and ff: "first_free t = NULL \<or> prev_field (first_free t) \<noteq> b"
    and N: "16 \<le> N" "N \<le> get_size (mem t b)"
  shows "mem (split_block_e b N t) b =
      (if get_size (mem t b) - N \<ge> 2 * ALIGNMENT + HEADER_SIZE then N else mem t b)"
    and "mem (split_block_e b N t) (prev_field b) = mem t (prev_field b) \<or>
      (get_size (mem t b) - N \<ge> 24 \<and> mem (split_block_e b N t) (prev_field b) = b + (N + 8))"
    and "mem (split_block_e b N t) (next_field b) = mem t (next_field b) \<or>
      (get_size (mem t b) - N \<ge> 24 \<and> mem (split_block_e b N t) (next_field b) = b + (N + 8))"
proof -
  let ?S = "get_size (mem t b)"
  show "mem (split_block_e b N t) b =
      (if ?S - N \<ge> 2 * ALIGNMENT + HEADER_SIZE then N else mem t b)"
  proof (cases "?S - N \<ge> 24")
    case False
    then show ?thesis
      by (simp add: split_block_e_def ALIGNMENT_def HEADER_SIZE_def Let_def)
  next
    case True
    note g = split_geometry [OF N(1) N(2) True, of b]
    show ?thesis
      using True free ff g
      by (auto simp: split_block_e_def ALIGNMENT_def HEADER_SIZE_def Let_def add_freeblock_mem)
  qed
  show "mem (split_block_e b N t) (prev_field b) = mem t (prev_field b) \<or>
      (?S - N \<ge> 24 \<and> mem (split_block_e b N t) (prev_field b) = b + (N + 8))"
  proof (cases "?S - N \<ge> 24")
    case False
    then show ?thesis
      by (simp add: split_block_e_def ALIGNMENT_def HEADER_SIZE_def Let_def)
  next
    case True
    note g = split_geometry [OF N(1) N(2) True, of b]
    have pb: "prev_field b \<noteq> b"
      by (simp add: prev_field_def)
    show ?thesis
      using True free g pb
      by (auto simp: split_block_e_def ALIGNMENT_def HEADER_SIZE_def Let_def add_freeblock_mem)
  qed
  show "mem (split_block_e b N t) (next_field b) = mem t (next_field b) \<or>
      (?S - N \<ge> 24 \<and> mem (split_block_e b N t) (next_field b) = b + (N + 8))"
  proof (cases "?S - N \<ge> 24")
    case False
    then show ?thesis
      by (simp add: split_block_e_def ALIGNMENT_def HEADER_SIZE_def Let_def)
  next
    case True
    note g = split_geometry [OF N(1) N(2) True, of b]
    have pb: "next_field b \<noteq> b"
      by (simp add: next_field_def)
    show ?thesis
      using True free g pb
      by (auto simp: split_block_e_def ALIGNMENT_def HEADER_SIZE_def Let_def add_freeblock_mem)
  qed
qed

lemma size_needed_e_bounds:
  assumes "r \<le> MX" "unat MX + 7 < 2 ^ 64"
  shows "16 \<le> size_needed_e r"
    and "unat (size_needed_e r) =
      (if 16 < unat r then ((unat r + 7) div 8) * 8 else 16)"
proof -
  have r: "unat r + 2 ^ 3 - 1 < 2 ^ 64"
    using assms by (simp add: word_le_nat_alt)
  have ru: "unat (roundup r 8) = ((unat r + 7) div 8) * 8"
    using roundup_unat [of 3 r] r by simp
  have lt: "(16 < r) = (16 < unat r)"
    by (simp add: word_less_nat_alt)
  show u: "unat (size_needed_e r) =
      (if 16 < unat r then ((unat r + 7) div 8) * 8 else 16)"
    using ru lt by (simp add: size_needed_e_def ALIGNMENT_def)
  have "16 \<le> unat (size_needed_e r)"
    unfolding u by (simp add: ceil_multiple_ge [of 8 "unat r", simplified] le_trans less_imp_le)
  then show "16 \<le> size_needed_e r"
    by (simp add: word_le_nat_alt)
qed

lemma mymalloc_e_header:
  assumes ok: "mymalloc_e MX t R = Some (q, t')" "q \<noteq> NULL"
    and mx: "unat MX + 7 < 2 ^ 64"
    and free: "\<not> is_malloc (mem t (get_header q))"
    and H1: "prev_field (first_free t) \<noteq> get_header q"
    and H2: "next_field (mem t (prev_field (get_header q))) \<noteq> get_header q"
    and H3: "prev_field (mem t (next_field (get_header q))) \<noteq> get_header q"
  shows "size_needed_e R \<le> get_size (mem t (get_header q)) \<and>
    is_malloc (mem t' (get_header q)) \<and>
    get_size (mem t' (get_header q)) =
      (if get_size (mem t (get_header q)) - size_needed_e R \<ge> 2 * ALIGNMENT + HEADER_SIZE
       then size_needed_e R else get_size (mem t (get_header q)))"
proof -
  let ?N = "size_needed_e R"
  from ok have R: "R \<le> MX" "R \<noteq> 0"
    by (auto simp: mymalloc_e_def NULL_def split: if_splits)
  from ok R obtain b where b: "find_freeblock t (first_free t) ?N = Some b" "b \<noteq> NULL"
    and q: "q = b + HEADER_SIZE"
    and t': "t' = (let s1 = split_block_e b ?N t;
                     s2 = remove_freeblock b s1;
                     s3 = s2\<lparr>mem := (mem s2)(b := mem s2 b + MALLOC)\<rparr>;
                     s4 = s3\<lparr>nused := nused s3 + (get_size (mem s3 b) + HEADER_SIZE)\<rparr>;
                     s5 = s4\<lparr>num_usedblocks := num_usedblocks s4 + 1\<rparr>
                 in s5\<lparr>num_freeblocks := num_freeblocks s5 - 1\<rparr>)"
    by (auto simp: mymalloc_e_def size_needed_e_def Let_def NULL_def
        split: if_splits option.splits)
  have hb: "get_header q = b"
    using q by (simp add: get_header_def)
  let ?S = "get_size (mem t b)"
  have fit: "?N \<le> ?S"
    using find_freeblock_result [OF b(1)] b(2) by (simp add: fits_e_def)
  have N16: "16 \<le> ?N"
    using size_needed_e_bounds(1) [OF R(1) mx] .
  have fb: "\<not> is_malloc (mem t b)"
    using free hb by simp
  have ff: "first_free t = NULL \<or> prev_field (first_free t) \<noteq> b"
    using H1 hb by simp
  note cells = split_block_e_cells [OF fb ff N16 fit]
  let ?s1 = "split_block_e b ?N t"
  have p1: "mem ?s1 (prev_field b) = NULL \<or> next_field (mem ?s1 (prev_field b)) \<noteq> b"
    using cells(2) H2 hb split_geometry(3) [OF N16 fit, of b] by auto
  have p2: "mem ?s1 (next_field b) = NULL \<or> prev_field (mem ?s1 (next_field b)) \<noteq> b"
    using cells(3) H3 hb split_geometry(2) [OF N16 fit, of b] by auto
  have rm: "mem (remove_freeblock b ?s1) b = mem ?s1 b"
    by (rule remove_freeblock_header [OF p1 p2])
  have final: "mem t' b = mem ?s1 b + MALLOC"
    using rm by (simp add: t' Let_def)
  show ?thesis
  proof (cases "?S - ?N \<ge> 2 * ALIGNMENT + HEADER_SIZE")
    case True
    then have "mem t' b = ?N + MALLOC"
      using final cells(1) by simp
    then show ?thesis
      using True fit hb set_alloc_bit [OF size_needed_header(4) [of R]] size_needed_header(3) [of R]
      by simp
  next
    case False
    then have "mem t' b = mem t b + MALLOC"
      using final cells(1) by simp
    then show ?thesis
      using False fit hb set_alloc_bit [OF fb] by simp
  qed
qed

lemma size_needed_i_bounds:
  assumes "r \<le> MX" "unat MX + 7 < 2 ^ 64"
  shows "unat (size_needed_i r) = ((unat r + 7) div 8) * 8"
proof -
  have r: "unat r + 2 ^ 3 - 1 < 2 ^ 64"
    using assms by (simp add: word_le_nat_alt)
  show ?thesis
    using roundup_unat [of 3 r] r by (simp add: size_needed_i_def ALIGNMENT_def)
qed

lemma size_needed_least:
  assumes "r \<le> MX" "r \<noteq> 0" "unat MX + 7 < 2 ^ 64"
  shows "8 dvd unat (size_needed_i r) \<and> max 8 (unat r) \<le> unat (size_needed_i r) \<and>
      (\<forall>j. 8 dvd j \<and> max 8 (unat r) \<le> j \<longrightarrow> unat (size_needed_i r) \<le> j)"
    and "8 dvd unat (size_needed_e r) \<and> max 16 (unat r) \<le> unat (size_needed_e r) \<and>
      (\<forall>j. 8 dvd j \<and> max 16 (unat r) \<le> j \<longrightarrow> unat (size_needed_e r) \<le> j)"
proof -
  define c where "c = ((unat r + 7) div 8) * 8"
  have pos: "0 < unat r"
    using assms(2) by (simp add: unat_gt_0)
  have ge: "unat r \<le> c"
    using ceil_multiple_ge [of 8 "unat r"] by (simp add: c_def)
  have least: "c \<le> j" if "8 dvd j" "unat r \<le> j" for j
    using ceil_multiple_least [of 8 j "unat r"] that by (simp add: c_def add.commute)
  have dv: "8 dvd c"
    by (simp add: c_def)
  have c8: "8 \<le> c"
    using pos by (simp add: c_def Suc_le_eq div_greater_zero_iff)
  have i: "unat (size_needed_i r) = c"
    using size_needed_i_bounds [OF assms(1,3)] by (simp add: c_def)
  have e: "unat (size_needed_e r) = (if 16 < unat r then c else 16)"
    using size_needed_e_bounds(2) [OF assms(1,3)] by (simp add: c_def)
  show "8 dvd unat (size_needed_i r) \<and> max 8 (unat r) \<le> unat (size_needed_i r) \<and>
      (\<forall>j. 8 dvd j \<and> max 8 (unat r) \<le> j \<longrightarrow> unat (size_needed_i r) \<le> j)"
    unfolding i using dv ge c8 least by auto
  show "8 dvd unat (size_needed_e r) \<and> max 16 (unat r) \<le> unat (size_needed_e r) \<and>
      (\<forall>j. 8 dvd j \<and> max 16 (unat r) \<le> j \<longrightarrow> unat (size_needed_e r) \<le> j)"
    unfolding e using dv ge least by auto
qed

lemma mymalloc_i_header:
  assumes ok: "mymalloc_i MX s R = Some (p, s')" "p \<noteq> NULL"
  shows "size_needed_i R \<le> get_size (mem s (get_header p)) \<and>
    \<not> is_malloc (mem s (get_header p)) \<and>
    is_malloc (mem s' (get_header p)) \<and>
    get_size (mem s' (get_header p)) =
      (if get_size (mem s (get_header p)) - size_needed_i R \<ge> HEADER_SIZE + ALIGNMENT
       then size_needed_i R else get_size (mem s (get_header p)))"
proof -
  let ?N = "size_needed_i R"
  from ok have R: "R \<le> MX" "R \<noteq> 0"
    by (auto simp: mymalloc_i_def NULL_def split: if_splits)
  from ok R obtain b where b: "find_first_free s (segment_start s) ?N = Some b" "b \<noteq> NULL"
    and q: "p = b + HEADER_SIZE"
    and s': "s' = (let s1 = split_block_i b ?N s;
                     s2 = s1\<lparr>mem := (mem s1)(b := mem s1 b + MALLOC)\<rparr>;
                     s3 = s2\<lparr>nused := nused s2 + (get_size (mem s2 b) + HEADER_SIZE)\<rparr>;
                     s4 = s3\<lparr>num_usedblocks := num_usedblocks s3 + 1\<rparr>
                 in s4\<lparr>num_freeblocks := num_freeblocks s4 - 1\<rparr>)"
    by (auto simp: mymalloc_i_def size_needed_i_def Let_def NULL_def
        split: if_splits option.splits)
  have hb: "get_header p = b"
    using q by (simp add: get_header_def)
  let ?S = "get_size (mem s b)"
  have fit: "?N \<le> ?S" and fb: "\<not> is_malloc (mem s b)"
    using find_first_free_result [OF b(1)] b(2) by (simp_all add: fits_i_def)
  have cell: "mem (split_block_i b ?N s) b =
      (if ?S - ?N \<ge> HEADER_SIZE + ALIGNMENT then ?N else mem s b)"
    by (simp add: split_block_i_def Let_def)
  have final: "mem s' b = mem (split_block_i b ?N s) b + MALLOC"
    by (simp add: s' Let_def)
  show ?thesis
  proof (cases "?S - ?N \<ge> HEADER_SIZE + ALIGNMENT")
    case True
    then have "mem s' b = ?N + MALLOC"
      using final cell by simp
    then show ?thesis
      using True fit fb hb set_alloc_bit [OF size_needed_header(2) [of R]]
        size_needed_header(1) [of R]
      by simp
  next
    case False
    then have "mem s' b = mem s b + MALLOC"
      using final cell by simp
    then show ?thesis
      using False fit fb hb set_alloc_bit [OF fb] by simp
  qed
qed

text \<open>
  C5 (as amended): when \<^verbatim>\<open>mymalloc(R)\<close> returns a non-null pointer, the block chosen was
  free with payload size \<open>S\<close> at least the normalized size \<open>N\<close>, and the header of the
  returned block is allocated with payload size \<open>N\<close> when \<open>S - N\<close> reaches the split
  threshold (\<^verbatim>\<open>HEADER_SIZE + ALIGNMENT\<close> implicit, \<^verbatim>\<open>2 * ALIGNMENT + HEADER_SIZE\<close>
  explicit) and with the old payload size \<open>S\<close> otherwise. \<open>N\<close> is the smallest multiple
  of 8 that is at least \<open>max(variant_min, R)\<close>, provided \<^verbatim>\<open>MAX_REQUEST_SIZE + 7\<close> does
  not wrap. For the explicit variant the chosen node is assumed free, and none of the
  three link fields that \<^verbatim>\<open>add_freeblock\<close> and \<^verbatim>\<open>remove_freeblock\<close> write through
  (\<^verbatim>\<open>first_free->prev\<close>, \<^verbatim>\<open>block->prev->next\<close>, \<^verbatim>\<open>block->next->prev\<close>) to be the
  header of the chosen block.
\<close>

theorem mymalloc_payload_size:
  "(mymalloc_i MX s R = Some (p, s') \<and> p \<noteq> NULL \<longrightarrow>
      size_needed_i R \<le> get_size (mem s (get_header p)) \<and>
      is_malloc (mem s' (get_header p)) \<and>
      get_size (mem s' (get_header p)) =
        (if get_size (mem s (get_header p)) - size_needed_i R \<ge> HEADER_SIZE + ALIGNMENT
         then size_needed_i R else get_size (mem s (get_header p))) \<and>
      (unat MX + 7 < 2 ^ 64 \<longrightarrow>
         8 dvd unat (size_needed_i R) \<and> max 8 (unat R) \<le> unat (size_needed_i R) \<and>
         (\<forall>j. 8 dvd j \<and> max 8 (unat R) \<le> j \<longrightarrow> unat (size_needed_i R) \<le> j))) \<and>
   (mymalloc_e MX t R = Some (q, t') \<and> q \<noteq> NULL \<and> unat MX + 7 < 2 ^ 64 \<and>
    \<not> is_malloc (mem t (get_header q)) \<and>
    prev_field (first_free t) \<noteq> get_header q \<and>
    next_field (mem t (prev_field (get_header q))) \<noteq> get_header q \<and>
    prev_field (mem t (next_field (get_header q))) \<noteq> get_header q \<longrightarrow>
      size_needed_e R \<le> get_size (mem t (get_header q)) \<and>
      is_malloc (mem t' (get_header q)) \<and>
      get_size (mem t' (get_header q)) =
        (if get_size (mem t (get_header q)) - size_needed_e R \<ge> 2 * ALIGNMENT + HEADER_SIZE
         then size_needed_e R else get_size (mem t (get_header q))) \<and>
      8 dvd unat (size_needed_e R) \<and> max 16 (unat R) \<le> unat (size_needed_e R) \<and>
      (\<forall>j. 8 dvd j \<and> max 16 (unat R) \<le> j \<longrightarrow> unat (size_needed_e R) \<le> j))"
proof (intro conjI impI)
  assume a: "mymalloc_i MX s R = Some (p, s') \<and> p \<noteq> NULL"
  then have ok: "mymalloc_i MX s R = Some (p, s')" "p \<noteq> NULL"
    by simp_all
  from mymalloc_i_header [OF ok]
  show "size_needed_i R \<le> get_size (mem s (get_header p))"
    and "is_malloc (mem s' (get_header p))"
    and "get_size (mem s' (get_header p)) =
        (if get_size (mem s (get_header p)) - size_needed_i R \<ge> HEADER_SIZE + ALIGNMENT
         then size_needed_i R else get_size (mem s (get_header p)))"
    by simp_all
  assume mx: "unat MX + 7 < 2 ^ 64"
  from ok have R: "R \<le> MX" "R \<noteq> 0"
    by (auto simp: mymalloc_i_def NULL_def split: if_splits)
  from size_needed_least(1) [OF R mx]
  show "8 dvd unat (size_needed_i R)" and "max 8 (unat R) \<le> unat (size_needed_i R)"
    and "\<forall>j. 8 dvd j \<and> max 8 (unat R) \<le> j \<longrightarrow> unat (size_needed_i R) \<le> j"
    by simp_all
next
  assume a: "mymalloc_e MX t R = Some (q, t') \<and> q \<noteq> NULL \<and> unat MX + 7 < 2 ^ 64 \<and>
    \<not> is_malloc (mem t (get_header q)) \<and>
    prev_field (first_free t) \<noteq> get_header q \<and>
    next_field (mem t (prev_field (get_header q))) \<noteq> get_header q \<and>
    prev_field (mem t (next_field (get_header q))) \<noteq> get_header q"
  then have ok: "mymalloc_e MX t R = Some (q, t')" "q \<noteq> NULL"
    and mx: "unat MX + 7 < 2 ^ 64"
    and free: "\<not> is_malloc (mem t (get_header q))"
    and H: "prev_field (first_free t) \<noteq> get_header q"
      "next_field (mem t (prev_field (get_header q))) \<noteq> get_header q"
      "prev_field (mem t (next_field (get_header q))) \<noteq> get_header q"
    by simp_all
  from mymalloc_e_header [OF ok mx free H]
  show "size_needed_e R \<le> get_size (mem t (get_header q))"
    and "is_malloc (mem t' (get_header q))"
    and "get_size (mem t' (get_header q)) =
        (if get_size (mem t (get_header q)) - size_needed_e R \<ge> 2 * ALIGNMENT + HEADER_SIZE
         then size_needed_e R else get_size (mem t (get_header q)))"
    by simp_all
  from ok have R: "R \<le> MX" "R \<noteq> 0"
    by (auto simp: mymalloc_e_def NULL_def split: if_splits)
  from size_needed_least(2) [OF R mx]
  show "8 dvd unat (size_needed_e R)" and "max 16 (unat R) \<le> unat (size_needed_e R)"
    and "\<forall>j. 8 dvd j \<and> max 16 (unat R) \<le> j \<longrightarrow> unat (size_needed_e R) \<le> j"
    by simp_all
qed

lemmas eval_defs = mymalloc_i_def mymalloc_e_def demo_i_def demo_e_def HEADER_SIZE_def
  ALIGNMENT_def roundup_def NULL_def find_first_free.simps find_freeblock.simps get_size_def
  SIZE_BITMASK_def is_malloc_def MALLOC_def split_block_i_def split_block_e_def Let_def
  add_freeblock_def remove_freeblock_def prev_field_def next_field_def get_header_def
  size_needed_i_def size_needed_e_def

theorem mymalloc_payload_size_witness:
  "(\<exists>s'. mymalloc_i 1000 demo_i 24 = Some (4128, s') \<and>
      is_malloc (mem s' 4120) \<and> get_size (mem s' 4120) = 32) \<and>
   (\<exists>t'. mymalloc_e 1000 demo_e 24 = Some (4128, t') \<and>
      is_malloc (mem t' 4120) \<and> get_size (mem t' 4120) = 32) \<and>
   (\<exists>s'. mymalloc_i 1000 demo_i 8 = Some (4128, s') \<and>
      is_malloc (mem s' 4120) \<and> get_size (mem s' 4120) = 8)"
proof -
  obtain s' where s': "mymalloc_i 1000 demo_i 24 = Some (4128, s')"
    by (simp add: eval_defs)
  obtain t' where t': "mymalloc_e 1000 demo_e 24 = Some (4128, t')"
    by (simp add: eval_defs)
  obtain s'' where s'': "mymalloc_i 1000 demo_i 8 = Some (4128, s'')"
    by (simp add: eval_defs)
  have h: "(4128 :: ptr) \<noteq> NULL" "unat (1000 :: size_t) + 7 < 2 ^ 64"
      "get_header 4128 = 4120"
      "\<not> is_malloc (mem demo_e 4120)"
      "prev_field (first_free demo_e) \<noteq> 4120"
      "next_field (mem demo_e (prev_field 4120)) \<noteq> 4120"
      "prev_field (mem demo_e (next_field 4120)) \<noteq> 4120"
    by (simp_all add: eval_defs)
  have v: "size_needed_i 24 = 24" "size_needed_e 24 = 24" "size_needed_i 8 = 8"
      "get_size (mem demo_i 4120) = 32" "get_size (mem demo_e 4120) = 32"
    by (simp_all add: eval_defs)
  have a: "is_malloc (mem s' 4120) \<and> get_size (mem s' 4120) = 32"
    using mymalloc_payload_size [of 1000 demo_i 24 4128 s' demo_e 4128 t'] s' h
    by (simp add: v HEADER_SIZE_def ALIGNMENT_def)
  have b: "is_malloc (mem t' 4120) \<and> get_size (mem t' 4120) = 32"
    using mymalloc_payload_size [of 1000 demo_i 24 4128 s' demo_e 4128 t'] t' h
    by (simp add: v HEADER_SIZE_def ALIGNMENT_def)
  have c: "is_malloc (mem s'' 4120) \<and> get_size (mem s'' 4120) = 8"
    using mymalloc_payload_size [of 1000 demo_i 8 4128 s'' demo_e 4128 t'] s'' h
    by (simp add: v HEADER_SIZE_def ALIGNMENT_def)
  show ?thesis
    using s' t' s'' a b c by blast
qed

text \<open>
  C5 as stated fails when the chosen block is too small to split: after
  \<^verbatim>\<open>myinit(4096, 64)\<close> and \<^verbatim>\<open>mymalloc(16)\<close> the free block has payload 32, and
  \<^verbatim>\<open>mymalloc(24)\<close> returns it whole in both variants: the header records 32, not 24.
\<close>

theorem mymalloc_payload_size_counterexample:
  "(case run_i 1000 [Init 4096 64, Malloc 16, Malloc 24] (zero_heap_i, []) of
      None \<Rightarrow> False
    | Some (s, ps) \<Rightarrow>
        ps = [4104, 4128] \<and> is_malloc (mem s (get_header 4128)) \<and>
        get_size (mem s (get_header 4128)) = 32 \<and> size_needed_i 24 = 24) \<and>
   (case run_e 1000 [Init 4096 64, Malloc 16, Malloc 24] (zero_heap_e, []) of
      None \<Rightarrow> False
    | Some (s, ps) \<Rightarrow>
        ps = [4104, 4128] \<and> is_malloc (mem s (get_header 4128)) \<and>
        get_size (mem s (get_header 4128)) = 32 \<and> size_needed_e 24 = 24)"
  by code_simp

section \<open>Shrinking reallocation\<close>

lemma demo_shrink_e_reachable:
  "run_e (2 ^ 30) [Init 4096 1024, Malloc 100] (zero_heap_e, []) = Some (demo_shrink_e, [4104])"
  by (simp add: myinit_e_def mymalloc_e_def zero_heap_e_def demo_shrink_e_def HEADER_SIZE_def
      ALIGNMENT_def roundup_def NULL_def find_freeblock.simps get_size_def SIZE_BITMASK_def
      is_malloc_def MALLOC_def split_block_e_def Let_def fun_upd_twist add_freeblock_def
      remove_freeblock_def prev_field_def next_field_def fun_eq_iff)

lemma shrink_geometry:
  fixes b N S :: size_t
  assumes "N < S" "24 \<le> S - N"
  shows "b + (N + 8) \<noteq> b" "prev_field (b + (N + 8)) \<noteq> b" "next_field (b + (N + 8)) \<noteq> b"
proof -
  have u: "unat N + 24 \<le> unat S"
    using assms by unat_arith
  have n: "N + 8 \<noteq> 0" "N + 16 \<noteq> 0" "N + 24 \<noteq> 0"
    using u by unat_arith+
  show "b + (N + 8) \<noteq> b" "prev_field (b + (N + 8)) \<noteq> b" "next_field (b + (N + 8)) \<noteq> b"
    using n by (simp_all add: prev_field_def next_field_def add.assoc add.commute)
qed

lemma split_block_e_allocated:
  assumes al: "is_malloc (mem t b)"
    and lt: "N < get_size (mem t b)"
    and big: "24 \<le> get_size (mem t b) - N"
    and ff: "prev_field (first_free t) \<noteq> b" "prev_field (first_free t) \<noteq> b + (N + 8)"
  shows "mem (split_block_e b N t) b = N + MALLOC"
    and "mem (split_block_e b N t) (b + (N + 8)) = get_size (mem t b) - (N + 8)"
    and "first_free (split_block_e b N t) = b + (N + 8)"
    and "num_freeblocks (split_block_e b N t) = num_freeblocks t + 1"
    and "nused (split_block_e b N t) = nused t"
    and "num_usedblocks (split_block_e b N t) = num_usedblocks t"
proof -
  note g = shrink_geometry [OF lt big, of b]
  have pn: "prev_field (b + (N + 8)) \<noteq> b + (N + 8)" "next_field (b + (N + 8)) \<noteq> b + (N + 8)"
    by (simp_all add: prev_field_def next_field_def)
  show "mem (split_block_e b N t) b = N + MALLOC"
    using al big ff g
    by (auto simp: split_block_e_def ALIGNMENT_def HEADER_SIZE_def Let_def add_freeblock_mem)
  show "mem (split_block_e b N t) (b + (N + 8)) = get_size (mem t b) - (N + 8)"
    using al big ff g pn
    by (auto simp: split_block_e_def ALIGNMENT_def HEADER_SIZE_def Let_def add_freeblock_mem)
  show "first_free (split_block_e b N t) = b + (N + 8)"
    using big
    by (auto simp: split_block_e_def ALIGNMENT_def HEADER_SIZE_def Let_def add_freeblock_def)
  show "num_freeblocks (split_block_e b N t) = num_freeblocks t + 1"
    using big
    by (auto simp: split_block_e_def ALIGNMENT_def HEADER_SIZE_def Let_def add_freeblock_def)
  show "nused (split_block_e b N t) = nused t"
    by (auto simp: split_block_e_def ALIGNMENT_def HEADER_SIZE_def Let_def add_freeblock_def)
  show "num_usedblocks (split_block_e b N t) = num_usedblocks t"
    by (auto simp: split_block_e_def ALIGNMENT_def HEADER_SIZE_def Let_def add_freeblock_def)
qed

text \<open>
  C4 (as amended, explicit variant): for a non-null \<open>old\<close> whose block is allocated with
  payload size \<open>S\<close>, and a non-zero \<open>new_size\<close> whose normalized size \<open>N\<close> is below \<open>S\<close>,
  \<^verbatim>\<open>myrealloc\<close> returns \<open>old\<close>. The block keeps its allocated bit; when
  \<open>S - N\<close> reaches \<^verbatim>\<open>2 * ALIGNMENT + HEADER_SIZE\<close> its payload size becomes \<open>N\<close>, a
  header word \<open>S - N - HEADER_SIZE\<close> is written behind it, that block becomes
  \<^verbatim>\<open>first_free\<close> and \<^verbatim>\<open>num_freeblocks\<close> grows by one; otherwise the state is unchanged.
  \<^verbatim>\<open>nused\<close> drops by the decrease of the block's payload size. The field
  \<^verbatim>\<open>first_free->prev\<close>, which \<^verbatim>\<open>add_freeblock\<close> writes, is assumed to be neither of the
  two headers.
\<close>

theorem myrealloc_e_shrink:
  assumes old: "old \<noteq> NULL" and ns: "new_size \<noteq> 0"
    and lt: "size_needed_e new_size < get_size (mem t (get_header old))"
    and al: "is_malloc (mem t (get_header old))"
    and ff: "prev_field (first_free t) \<noteq> get_header old"
      "prev_field (first_free t) \<noteq> get_header old + (size_needed_e new_size + 8)"
  shows "\<exists>t'. myrealloc_e MX t old new_size = Some (old, t') \<and>
    is_malloc (mem t' (get_header old)) \<and>
    get_size (mem t' (get_header old)) =
      (if get_size (mem t (get_header old)) - size_needed_e new_size
            \<ge> 2 * ALIGNMENT + HEADER_SIZE
       then size_needed_e new_size else get_size (mem t (get_header old))) \<and>
    nused t' =
      nused t - (get_size (mem t (get_header old)) - get_size (mem t' (get_header old))) \<and>
    num_usedblocks t' = num_usedblocks t \<and>
    (if get_size (mem t (get_header old)) - size_needed_e new_size
          \<ge> 2 * ALIGNMENT + HEADER_SIZE
     then mem t' (get_header old + (size_needed_e new_size + HEADER_SIZE)) =
            get_size (mem t (get_header old)) - (size_needed_e new_size + HEADER_SIZE) \<and>
          first_free t' = get_header old + (size_needed_e new_size + HEADER_SIZE) \<and>
          num_freeblocks t' = num_freeblocks t + 1
     else t' = t)"
proof -
  let ?b = "get_header old"
  let ?N = "size_needed_e new_size"
  let ?S = "get_size (mem t ?b)"
  let ?s1 = "split_block_e ?b ?N t"
  let ?t' = "?s1\<lparr>nused := nused ?s1 - (?S - get_size (mem ?s1 ?b))\<rparr>"
  have run: "myrealloc_e MX t old new_size = Some (old, ?t')"
    using old ns lt by (simp add: myrealloc_e_def size_needed_e_def Let_def)
  show ?thesis
  proof (cases "?S - ?N \<ge> 24")
    case True
    note c = split_block_e_allocated [OF al lt True ff]
    have hdr: "mem ?t' ?b = ?N + MALLOC"
      using c(1) by simp
    have "is_malloc (mem ?t' ?b)" "get_size (mem ?t' ?b) = ?N"
      using hdr set_alloc_bit [OF size_needed_header(4) [of new_size]]
        size_needed_header(3) [of new_size]
      by simp_all
    then show ?thesis
      using run True c by (simp add: ALIGNMENT_def HEADER_SIZE_def)
  next
    case False
    then have same: "?s1 = t"
      by (simp add: split_block_e_def ALIGNMENT_def HEADER_SIZE_def Let_def)
    then have "?t' = t"
      by simp
    then show ?thesis
      using run False al by (simp add: ALIGNMENT_def HEADER_SIZE_def)
  qed
qed

theorem myrealloc_e_shrink_witness:
  "(\<exists>t'. myrealloc_e 1000 demo_shrink_e 4104 10 = Some (4104, t') \<and>
      is_malloc (mem t' 4096) \<and> get_size (mem t' 4096) = 16 \<and> nused t' = 24 \<and>
      mem t' 4120 = 80 \<and> first_free t' = 4120 \<and> num_freeblocks t' = 2) \<and>
   myrealloc_e 1000 demo_shrink_e 4104 90 = Some (4104, demo_shrink_e)"
proof -
  have h: "(4104 :: ptr) \<noteq> NULL" "(10 :: size_t) \<noteq> 0" "(90 :: size_t) \<noteq> 0"
      "get_header 4104 = 4096"
      "is_malloc (mem demo_shrink_e 4096)"
      "prev_field (first_free demo_shrink_e) \<noteq> 4096"
      "prev_field (first_free demo_shrink_e) \<noteq> 4096 + (size_needed_e 10 + 8)"
      "prev_field (first_free demo_shrink_e) \<noteq> 4096 + (size_needed_e 90 + 8)"
      "size_needed_e 10 < get_size (mem demo_shrink_e 4096)"
      "size_needed_e 90 < get_size (mem demo_shrink_e 4096)"
    by (simp_all add: eval_defs demo_shrink_e_def)
  have v: "size_needed_e 10 = 16" "size_needed_e 90 = 96"
      "get_size (mem demo_shrink_e 4096) = 104" "nused demo_shrink_e = 112"
      "num_freeblocks demo_shrink_e = 1"
    by (simp_all add: eval_defs demo_shrink_e_def)
  have a: "\<exists>t'. myrealloc_e 1000 demo_shrink_e 4104 10 = Some (4104, t') \<and>
      is_malloc (mem t' 4096) \<and> get_size (mem t' 4096) = 16 \<and> nused t' = 24 \<and>
      mem t' 4120 = 80 \<and> first_free t' = 4120 \<and> num_freeblocks t' = 2"
    using myrealloc_e_shrink [of 4104 10 demo_shrink_e 1000] h
    by (auto simp: v HEADER_SIZE_def ALIGNMENT_def)
  have b: "myrealloc_e 1000 demo_shrink_e 4104 90 = Some (4104, demo_shrink_e)"
    using myrealloc_e_shrink [of 4104 90 demo_shrink_e 1000] h
    by (simp add: v HEADER_SIZE_def ALIGNMENT_def)
  show ?thesis
    using a b by blast
qed

text \<open>
  C4 as stated fails for the implicit variant, whose \<^verbatim>\<open>myrealloc\<close> has no path that
  returns \<open>old\<close> for a non-zero size: here, shrinking the block of payload 104 at 4104 to
  10 bytes allocates a new block, returns its address 4216 and frees the old block at
  its full size.
\<close>

theorem myrealloc_i_shrink_counterexample:
  "(case run_i 1000 [Init 4096 1024, Malloc 100] (zero_heap_i, []) of
      None \<Rightarrow> False
    | Some (s, ps) \<Rightarrow>
        ps = [4104] \<and> is_malloc (mem s (get_header 4104)) \<and>
        get_size (mem s (get_header 4104)) = 104 \<and> size_needed_i 10 = 16 \<and>
        (case myrealloc_i 1000 s 4104 10 of
           None \<Rightarrow> False
         | Some (r, s') \<Rightarrow>
             r = 4216 \<and> \<not> is_malloc (mem s' (get_header 4104)) \<and>
             get_size (mem s' (get_header 4104)) = 104 \<and>
             is_malloc (mem s' (get_header 4216)) \<and>
             get_size (mem s' (get_header 4216)) = 16))"
  by code_simp

section \<open>Call sequences that break the explicit allocator\<close>

text \<open>
  C1 fails on the code. After \<^verbatim>\<open>myinit(4096, 48)\<close>, two \<^verbatim>\<open>mymalloc(16)\<close>, freeing both
  blocks left to right, allocating both again and freeing the right one, every call
  valid, \<^verbatim>\<open>first_free\<close> is the block at 4120 and its \<^verbatim>\<open>next\<close> still names the block at
  4096, which is allocated: \<^verbatim>\<open>add_freeblock\<close> on an empty list stores the block without
  resetting the links left in its payload. \<^verbatim>\<open>validate_heap\<close> returns false.
\<close>

theorem validate_heap_e_fails_after_valid_calls:
  "(case run_e (2 ^ 30)
      [Init 4096 48, Malloc 16, Malloc 16, Free 0, Free 1, Malloc 16, Malloc 16, Free 2]
      (zero_heap_e, []) of
      None \<Rightarrow> False
    | Some (s, ps) \<Rightarrow>
        ps = [4104, 4128, 4128, 4104] \<and>
        first_free s = 4120 \<and> \<not> is_malloc (mem s 4120) \<and>
        mem s (next_field 4120) = 4096 \<and> is_malloc (mem s 4096) \<and>
        num_freeblocks s = 1 \<and> num_usedblocks s = 1 \<and>
        validate_heap_e s = Some False)"
  by code_simp

text \<open>
  The implicit \<^verbatim>\<open>myrealloc\<close> allocates before it touches anything: when it returns
  \<^verbatim>\<open>NULL\<close> for a non-null pointer and a non-zero size, the state is the one it was
  given (for a segment that ends at least 8 bytes below the top of the address space,
  so that no payload address wraps to \<^verbatim>\<open>NULL\<close>).
\<close>

lemma mymalloc_i_null_unchanged:
  assumes r: "mymalloc_i MX s n = Some (NULL, s')"
    and e: "unat (segment_end s) + 8 \<le> 2 ^ 64"
  shows "s' = s"
proof (cases "n > MX \<or> n = 0 \<or> size_needed_i n + nused s > segment_size s")
  case True
  then have "mymalloc_i MX s n = Some (NULL, s)"
    by (auto simp: mymalloc_i_def size_needed_i_def Let_def)
  then show ?thesis
    using r by simp
next
  case False
  with r obtain b where b: "find_first_free s (segment_start s) (size_needed_i n) = Some b"
    by (cases "find_first_free s (segment_start s) (size_needed_i n)")
      (auto simp: mymalloc_i_def size_needed_i_def Let_def)
  show ?thesis
  proof (cases "b = NULL")
    case True
    then have "mymalloc_i MX s n = Some (NULL, s)"
      using b False by (auto simp: mymalloc_i_def size_needed_i_def Let_def)
    then show ?thesis
      using r by simp
  next
    case nn: False
    have "b < segment_end s"
      using find_first_free_result [OF b] nn by simp
    then have "unat b + 8 < 2 ^ 64"
      using e by (simp add: word_less_nat_alt)
    then have "unat (b + 8) = unat b + 8"
      using unat_add_no_wrap [of b 8] by simp
    then have "b + 8 \<noteq> 0"
      by (metis add_is_0 unat_eq_0 zero_neq_numeral)
    then have "b + HEADER_SIZE \<noteq> NULL"
      by (simp add: HEADER_SIZE_def NULL_def)
    moreover have "fst (the (mymalloc_i MX s n)) = b + HEADER_SIZE"
      using b False nn by (auto simp: mymalloc_i_def size_needed_i_def Let_def)
    ultimately show ?thesis
      using r by simp
  qed
qed

lemma myrealloc_i_failure_unchanged:
  assumes "old \<noteq> NULL" "new_size \<noteq> 0"
    and r: "myrealloc_i MX s old new_size = Some (NULL, s')"
    and e: "unat (segment_end s) + 8 \<le> 2 ^ 64"
  shows "s' = s"
proof -
  from assms(1,2) r have "mymalloc_i MX s new_size = Some (NULL, s')"
    by (auto simp: myrealloc_i_def Let_def split: option.splits if_splits)
  then show ?thesis
    using e by (rule mymalloc_i_null_unchanged)
qed

text \<open>
  C2 fails on the code. With blocks of payload 16 at 4096 (allocated), 4120 (free) and
  4144 (allocated) in a segment of 72 bytes, \<^verbatim>\<open>myrealloc(4104, 100)\<close> first merges the
  free neighbour into the old block, then fails to allocate and returns \<^verbatim>\<open>NULL\<close>: the
  old header has changed from 17 to 41, \<^verbatim>\<open>num_freeblocks\<close> from 1 to 0 and
  \<^verbatim>\<open>first_free\<close> from 4120 to \<^verbatim>\<open>NULL\<close>, while \<^verbatim>\<open>nused\<close> still counts the old size.
  Freeing the block afterwards takes its merged size off \<^verbatim>\<open>nused\<close>, which reaches 0
  with the block at 4144 still allocated; freeing that one too wraps \<^verbatim>\<open>nused\<close> below
  zero and \<^verbatim>\<open>validate_heap\<close> returns false.
\<close>

theorem myrealloc_e_failure_mutates:
  "(case run_e (2 ^ 30) [Init 4096 72, Malloc 16, Malloc 16, Malloc 16, Free 1]
      (zero_heap_e, []) of
      None \<Rightarrow> False
    | Some (s, ps) \<Rightarrow>
        ps = [4104, 4128, 4152] \<and>
        mem s 4096 = 17 \<and> num_freeblocks s = 1 \<and> first_free s = 4120 \<and> nused s = 48 \<and>
        size_needed_e 100 = 104 \<and> get_size (mem s (get_header 4104)) = 16 \<and>
        validate_heap_e s = Some True \<and>
        (case myrealloc_e (2 ^ 30) s 4104 100 of
           None \<Rightarrow> False
         | Some (r, s') \<Rightarrow>
             r = NULL \<and> mem s' 4096 = 41 \<and> num_freeblocks s' = 0 \<and>
             first_free s' = NULL \<and> nused s' = 48 \<and>
             nused (myfree_e s' 4104) = 0 \<and>
             is_malloc (mem (myfree_e s' 4104) 4144) \<and>
             validate_heap_e (myfree_e (myfree_e s' 4104) 4152) = Some False))"
  by code_simp

text \<open>
  C3 fails on the code. The calls below leave an allocated block of payload 16 at 4096
  whose first two payload words are zero, and a free block of payload 16 right after
  it; together they give exactly the 40 bytes \<^verbatim>\<open>myrealloc(4104, 40)\<close> needs.
  \<^verbatim>\<open>coalesce_block\<close> reads the two payload words as \<^verbatim>\<open>prev\<close> and \<^verbatim>\<open>next\<close>, takes the
  block for the only free one and returns at once, so nothing is merged, the fallback
  allocation fails and the call returns \<^verbatim>\<open>NULL\<close> with the state unchanged.
\<close>

theorem myrealloc_e_no_grow_in_place:
  "(case run_e (2 ^ 30)
      [Init 4096 80, Malloc 16, Malloc 16, Malloc 24, Free 2, Free 0, Malloc 24, Malloc 16,
       Free 1]
      (zero_heap_e, []) of
      None \<Rightarrow> False
    | Some (s, ps) \<Rightarrow>
        ps = [4104, 4128, 4152, 4152, 4104] \<and>
        is_malloc (mem s 4096) \<and> get_size (mem s 4096) = 16 \<and>
        4096 + get_size (mem s 4096) + HEADER_SIZE = 4120 \<and>
        \<not> is_malloc (mem s 4120) \<and> get_size (mem s 4120) = 16 \<and>
        size_needed_e 40 = 40 \<and>
        get_size (mem s 4096) + HEADER_SIZE + get_size (mem s 4120) = 40 \<and>
        validate_heap_e s = Some True \<and>
        mem s (prev_field 4096) = NULL \<and> mem s (next_field 4096) = NULL \<and>
        myrealloc_e (2 ^ 30) s 4104 40 = Some (NULL, s))"
  by code_simp

end
